theory Spec2Isabelle
  imports Complex_Main
begin

section \<open>Floating-point values of the tables\<close>

text \<open>
  The cells of a pandas table are IEEE doubles. They are modelled by their values: a finite
  double is the real number it stands for (rounding, overflow and the sign of zero are not
  modelled; a zero divisor is the positive zero, which is what a price or a standard
  deviation is), and the three special values are kept apart, since the code under study
  relies on division by zero yielding them instead of raising.
\<close>

datatype pyfloat = Fin real | PInf | NInf | NaN

fun isnan :: "pyfloat \<Rightarrow> bool" where
  "isnan NaN = True"
| "isnan _ = False"

fun isfinite :: "pyfloat \<Rightarrow> bool" where
  "isfinite (Fin _) = True"
| "isfinite _ = False"

fun fneg :: "pyfloat \<Rightarrow> pyfloat" where
  "fneg (Fin a) = Fin (- a)"
| "fneg PInf = NInf"
| "fneg NInf = PInf"
| "fneg NaN = NaN"

fun fadd :: "pyfloat \<Rightarrow> pyfloat \<Rightarrow> pyfloat" where
  "fadd (Fin a) (Fin b) = Fin (a + b)"
| "fadd NaN _ = NaN"
| "fadd _ NaN = NaN"
| "fadd PInf NInf = NaN"
| "fadd NInf PInf = NaN"
| "fadd PInf _ = PInf"
| "fadd _ PInf = PInf"
| "fadd NInf _ = NInf"
| "fadd _ NInf = NInf"

definition fsub :: "pyfloat \<Rightarrow> pyfloat \<Rightarrow> pyfloat" where
  "fsub a b = fadd a (fneg b)"

text \<open>The sign of an infinite product or quotient: \<open>inf_of True\<close> is \<open>+inf\<close>.\<close>

definition inf_of :: "bool \<Rightarrow> pyfloat" where
  "inf_of pos = (if pos then PInf else NInf)"

fun fmul :: "pyfloat \<Rightarrow> pyfloat \<Rightarrow> pyfloat" where
  "fmul (Fin a) (Fin b) = Fin (a * b)"
| "fmul NaN _ = NaN"
| "fmul _ NaN = NaN"
| "fmul PInf (Fin b) = (if b = 0 then NaN else inf_of (0 < b))"
| "fmul NInf (Fin b) = (if b = 0 then NaN else inf_of (b < 0))"
| "fmul (Fin a) PInf = (if a = 0 then NaN else inf_of (0 < a))"
| "fmul (Fin a) NInf = (if a = 0 then NaN else inf_of (a < 0))"
| "fmul PInf PInf = PInf"
| "fmul NInf NInf = PInf"
| "fmul PInf NInf = NInf"
| "fmul NInf PInf = NInf"

text \<open>
  numpy's true division does not raise on a zero divisor: \<open>x / 0\<close> is \<open>+inf\<close> or
  \<open>-inf\<close> by the sign of \<open>x\<close>, and \<open>0 / 0\<close> is \<open>nan\<close>.
\<close>

fun fdiv :: "pyfloat \<Rightarrow> pyfloat \<Rightarrow> pyfloat" where
  "fdiv (Fin a) (Fin b) =
     (if b \<noteq> 0 then Fin (a / b)
      else if a = 0 then NaN else inf_of (0 < a))"
| "fdiv NaN _ = NaN"
| "fdiv _ NaN = NaN"
| "fdiv (Fin a) PInf = Fin 0"
| "fdiv (Fin a) NInf = Fin 0"
| "fdiv PInf (Fin b) = inf_of (0 \<le> b)"
| "fdiv NInf (Fin b) = inf_of (b < 0)"
| "fdiv PInf PInf = NaN"
| "fdiv PInf NInf = NaN"
| "fdiv NInf PInf = NaN"
| "fdiv NInf NInf = NaN"

section \<open>Tables\<close>

text \<open>
  A \<open>pd.DataFrame\<close> of prices or returns: the shared date index (dates as proleptic
  Gregorian ordinals, \<open>date.toordinal()\<close>) and the named columns in their order. A
  \<open>pd.Series\<close> is an index with one list of values.
\<close>

record DataFrame =
  index :: "int list"
  columns :: "(string \<times> pyfloat list) list"

definition nrows :: "DataFrame \<Rightarrow> nat" where
  "nrows df = length (index df)"

definition column_names :: "DataFrame \<Rightarrow> string list" where
  "column_names df = map fst (columns df)"

text \<open>Every column of a table has one cell per date of the index.\<close>

definition well_formed :: "DataFrame \<Rightarrow> bool" where
  "well_formed df = list_all (\<lambda>(c, xs). length xs = length (index df)) (columns df)"

subsection \<open>\<open>dropna\<close>\<close>

text \<open>
  \<open>DataFrame.dropna(how=...)\<close> keeps the rows of a mask: with \<open>how='any'\<close> (the default)
  a row is kept when all of its cells are present, with \<open>how='all'\<close> when one of them is.
  Over no column at all, the first keeps every row and the second none.
\<close>

definition notna :: "pyfloat list \<Rightarrow> bool list" where
  "notna xs = map (\<lambda>x. \<not> isnan x) xs"

definition mask_all_present :: "nat \<Rightarrow> (string \<times> pyfloat list) list \<Rightarrow> bool list" where
  "mask_all_present n cols =
     foldr (\<lambda>(c, xs) m. map2 (\<and>) (notna xs) m) cols (replicate n True)"


definition select_rows :: "bool list \<Rightarrow> 'a list \<Rightarrow> 'a list" where
  "select_rows m xs = map snd (filter fst (zip m xs))"

definition keep_rows :: "bool list \<Rightarrow> DataFrame \<Rightarrow> DataFrame" where
  "keep_rows m df =
     \<lparr>index = select_rows m (index df),
      columns = map (\<lambda>(c, xs). (c, select_rows m xs)) (columns df)\<rparr>"

definition dropna :: "DataFrame \<Rightarrow> DataFrame" where
  "dropna df = keep_rows (mask_all_present (nrows df) (columns df)) df"


subsection \<open>\<open>pct_change\<close>\<close>

text \<open>
  \<open>DataFrame.pct_change()\<close> is \<open>data / data.shift(1) - 1\<close> per column. Up to pandas 2
  the data is forward-filled first (\<open>fill_method='pad'\<close>); pandas 3 no longer fills. The
  repository does not pin a version, so the choice is the parameter \<open>pad\<close>.
\<close>

fun ffill_from :: "pyfloat \<Rightarrow> pyfloat list \<Rightarrow> pyfloat list" where
  "ffill_from prev [] = []"
| "ffill_from prev (x # xs) =
     (if isnan x then prev # ffill_from prev xs else x # ffill_from x xs)"

definition ffill :: "pyfloat list \<Rightarrow> pyfloat list" where
  "ffill xs = ffill_from NaN xs"

definition shift1 :: "pyfloat list \<Rightarrow> pyfloat list" where
  "shift1 xs = take (length xs) (NaN # xs)"

definition pct_change_col :: "bool \<Rightarrow> pyfloat list \<Rightarrow> pyfloat list" where
  "pct_change_col pad xs =
     (let d = (if pad then ffill xs else xs)
      in map2 (\<lambda>cur prev. fsub (fdiv cur prev) (Fin 1)) d (shift1 d))"

definition pct_change :: "bool \<Rightarrow> DataFrame \<Rightarrow> DataFrame" where
  "pct_change pad df =
     \<lparr>index = index df,
      columns = map (\<lambda>(c, xs). (c, pct_change_col pad xs)) (columns df)\<rparr>"

subsection \<open>Column statistics\<close>

text \<open>
  The comparison of two doubles; every comparison with \<open>nan\<close> is false.
\<close>

fun fle :: "pyfloat \<Rightarrow> pyfloat \<Rightarrow> bool" where
  "fle (Fin a) (Fin b) = (a \<le> b)"
| "fle NaN _ = False"
| "fle _ NaN = False"
| "fle NInf _ = True"
| "fle _ PInf = True"
| "fle _ _ = False"

definition fmax2 :: "pyfloat \<Rightarrow> pyfloat \<Rightarrow> pyfloat" where
  "fmax2 a b = (if fle a b then b else a)"

definition fmin2 :: "pyfloat \<Rightarrow> pyfloat \<Rightarrow> pyfloat" where
  "fmin2 a b = (if fle b a then b else a)"

fun the_real :: "pyfloat \<Rightarrow> real" where
  "the_real (Fin a) = a"
| "the_real _ = 0"

definition present :: "pyfloat list \<Rightarrow> pyfloat list" where
  "present xs = filter (\<lambda>x. \<not> isnan x) xs"

text \<open>\<open>np.sqrt\<close> of a Python number: \<open>nan\<close> below zero.\<close>

definition fsqrt :: "real \<Rightarrow> pyfloat" where
  "fsqrt x = (if x < 0 then NaN else Fin (sqrt x))"

text \<open>
  \<open>x ** e\<close> for a table cell \<open>x\<close> and a Python float \<open>e\<close> (C's \<open>pow\<close>): a
  negative base has a power only at an integral exponent.
\<close>

fun fpow :: "pyfloat \<Rightarrow> real \<Rightarrow> pyfloat" where
  "fpow x e =
     (if e = 0 then Fin 1
      else case x of
        NaN \<Rightarrow> NaN
      | Fin a \<Rightarrow>
          (if 0 < a then Fin (a powr e)
           else if a = 0 then (if 0 < e then Fin 0 else PInf)
           else if e \<in> \<int> then Fin ((if even \<lfloor>e\<rfloor> then 1 else - 1) * (\<bar>a\<bar> powr e))
           else NaN)
      | PInf \<Rightarrow> (if 0 < e then PInf else Fin 0)
      | NInf \<Rightarrow> (if 0 < e then (if e \<in> \<int> \<and> odd \<lfloor>e\<rfloor> then NInf else PInf) else Fin 0))"

subsection \<open>Rounding\<close>

text \<open>
  Where a statement depends on the rounding of the doubles, the arithmetic takes the
  rounding as a parameter: each operation is the exact one followed by the rounding of a
  finite result. \<open>Fin\<close> is the exact arithmetic and \<open>round_double\<close> the
  arithmetic of IEEE binary64: round to nearest, ties to even, on 53 significant bits,
  with the subnormals below 2 to the power -1022 and overflow to infinity from 2 to the
  power 1024.
\<close>

definition round_half_even :: "real \<Rightarrow> int" where
  "round_half_even x =
     (let f = \<lfloor>x\<rfloor>; d = x - real_of_int f
      in if d < 1 / 2 then f else if 1 / 2 < d then f + 1 else if even f then f else f + 1)"

definition round_double :: "real \<Rightarrow> pyfloat" where
  "round_double x =
     (if x = 0 then Fin 0
      else let e = max \<lfloor>log 2 \<bar>x\<bar>\<rfloor> (- 1022);
               q = 2 powi (e - 52);
               y = real_of_int (round_half_even (x / q)) * q
           in if 2 ^ 1024 \<le> \<bar>y\<bar> then inf_of (0 < x) else Fin y)"

definition rounded :: "(real \<Rightarrow> pyfloat) \<Rightarrow> pyfloat \<Rightarrow> pyfloat" where
  "rounded rnd x = (case x of Fin a \<Rightarrow> rnd a | _ \<Rightarrow> x)"

text \<open>A plain sum, as \<open>np.dot\<close> and \<open>np.sum\<close> accumulate it: \<open>nan\<close> propagates.\<close>

definition fsum :: "pyfloat list \<Rightarrow> pyfloat" where
  "fsum xs = foldl fadd (Fin 0) xs"

text \<open>
  The pandas reductions skip missing cells (\<open>skipna=True\<close>): \<open>sum\<close> and \<open>prod\<close> of no
  cell are 0 and 1, \<open>min\<close> of no cell is \<open>nan\<close>.
\<close>

definition nansum :: "pyfloat list \<Rightarrow> pyfloat" where
  "nansum xs = foldl fadd (Fin 0) (present xs)"

definition nansum_rounded :: "(real \<Rightarrow> pyfloat) \<Rightarrow> pyfloat list \<Rightarrow> pyfloat" where
  "nansum_rounded rnd xs = foldl (\<lambda>acc x. rounded rnd (fadd acc x)) (Fin 0) (present xs)"

definition nanprod :: "pyfloat list \<Rightarrow> pyfloat" where
  "nanprod xs = foldl fmul (Fin 1) (present xs)"

definition nanmin :: "pyfloat list \<Rightarrow> pyfloat" where
  "nanmin xs = (case present xs of [] \<Rightarrow> NaN | y # ys \<Rightarrow> foldl fmin2 y ys)"

text \<open>
  \<open>Series.std()\<close> and \<open>Series.mean()\<close>: the sample standard deviation (\<open>ddof=1\<close>) and the
  mean of the cells that are present. Fewer than two cells have no deviation, no cell has
  no mean, and an infinite cell makes the mean infinite and every deviation from it
  \<open>nan\<close>.
\<close>

definition mean :: "real list \<Rightarrow> real" where
  "mean rs = sum_list rs / real (length rs)"

definition sum_sq_dev :: "real list \<Rightarrow> real" where
  "sum_sq_dev rs = (\<Sum>r\<leftarrow>rs. (r - mean rs)\<^sup>2)"

definition nanmean :: "pyfloat list \<Rightarrow> pyfloat" where
  "nanmean xs =
     (let vs = present xs
      in if vs = [] then NaN
         else if \<not> list_all isfinite vs then fdiv (fsum vs) (Fin (real (length vs)))
         else Fin (mean (map the_real vs)))"

definition nanstd :: "pyfloat list \<Rightarrow> pyfloat" where
  "nanstd xs =
     (let vs = present xs
      in if length vs < 2 \<or> \<not> list_all isfinite vs then NaN
         else Fin (sqrt (sum_sq_dev (map the_real vs) / real (length vs - 1))))"

text \<open>
  \<open>Series.cumprod()\<close>: pandas puts 1 in the missing cells, runs \<open>np.cumprod\<close>, and
  makes the cells that were missing \<open>nan\<close> again.
\<close>

fun np_cumprod_from :: "pyfloat \<Rightarrow> pyfloat list \<Rightarrow> pyfloat list" where
  "np_cumprod_from acc [] = []"
| "np_cumprod_from acc (x # xs) = fmul acc x # np_cumprod_from (fmul acc x) xs"

definition np_cumprod :: "pyfloat list \<Rightarrow> pyfloat list" where
  "np_cumprod xs = (case xs of [] \<Rightarrow> [] | x # rest \<Rightarrow> x # np_cumprod_from x rest)"

definition cumprod :: "pyfloat list \<Rightarrow> pyfloat list" where
  "cumprod xs =
     map2 (\<lambda>x y. if isnan x then NaN else y) xs
       (np_cumprod (map (\<lambda>x. if isnan x then Fin 1 else x) xs))"

text \<open>
  The window operations of pandas (\<open>expanding\<close>, \<open>rolling\<close>) first turn the
  infinite cells into missing ones.
\<close>

definition prep_values :: "pyfloat list \<Rightarrow> pyfloat list" where
  "prep_values xs = map (\<lambda>x. if isfinite x then x else NaN) xs"

text \<open>
  \<open>Series.expanding().max()\<close>: the greatest cell present so far (\<open>min_periods=1\<close>),
  \<open>nan\<close> before the first one.
\<close>

fun expanding_max_from :: "pyfloat \<Rightarrow> pyfloat list \<Rightarrow> pyfloat list" where
  "expanding_max_from m [] = []"
| "expanding_max_from m (x # xs) =
     (let m' = (if isnan x then m else if isnan m then x else fmax2 m x)
      in m' # expanding_max_from m' xs)"

definition expanding_max :: "pyfloat list \<Rightarrow> pyfloat list" where
  "expanding_max xs = expanding_max_from NaN (prep_values xs)"

text \<open>
  \<open>Series.rolling(window=w)\<close>: the trailing windows of \<open>w\<close> cells, one per row. A
  negative window is refused when the roller is built; a statistic of a window is \<open>nan\<close>
  unless \<open>w\<close> cells of it are present (\<open>min_periods\<close> is the window).
\<close>

datatype error = ZeroDivisionError | IndexError | ValueError string

definition rolling_windows :: "nat \<Rightarrow> pyfloat list \<Rightarrow> pyfloat list list" where
  "rolling_windows w xs = map (\<lambda>i. drop (Suc i - w) (take (Suc i) xs)) [0..<length xs]"

definition rolling_apply :: "nat \<Rightarrow> (pyfloat list \<Rightarrow> pyfloat) \<Rightarrow> pyfloat list \<Rightarrow> pyfloat list" where
  "rolling_apply w f xs =
     map (\<lambda>win. if length (present win) < w then NaN else f win)
       (rolling_windows w (prep_values xs))"

definition map_columns :: "(pyfloat list \<Rightarrow> pyfloat list) \<Rightarrow> DataFrame \<Rightarrow> DataFrame" where
  "map_columns f df = \<lparr>index = index df, columns = map (\<lambda>(c, xs). (c, f xs)) (columns df)\<rparr>"

definition rolling :: "int \<Rightarrow> (pyfloat list \<Rightarrow> pyfloat) \<Rightarrow> DataFrame \<Rightarrow> error + DataFrame" where
  "rolling window f df =
     (if window < 0 then Inl (ValueError ''window must be an integer 0 or greater'')
      else Inr (map_columns (rolling_apply (nat window) f) df))"

text \<open>
  \<open>DataFrame.corr()\<close>: Pearson's coefficient of each pair of columns over the rows where
  both cells are finite; \<open>nan\<close> where there is no such row or the divisor is zero.
\<close>

definition sum_co_dev :: "real list \<Rightarrow> real list \<Rightarrow> real" where
  "sum_co_dev rs ss = (\<Sum>(r, s)\<leftarrow>zip rs ss. (r - mean rs) * (s - mean ss))"

definition corr_pair :: "pyfloat list \<Rightarrow> pyfloat list \<Rightarrow> pyfloat" where
  "corr_pair xs ys =
     (let ps = filter (\<lambda>(x, y). isfinite x \<and> isfinite y) (zip xs ys);
          rs = map (the_real \<circ> fst) ps; ss = map (the_real \<circ> snd) ps;
          divisor = sqrt (sum_sq_dev rs * sum_sq_dev ss)
      in if ps = [] then NaN
         else if divisor \<noteq> 0 then Fin (sum_co_dev rs ss / divisor)
         else NaN)"

definition corr :: "DataFrame \<Rightarrow> (string \<times> (string \<times> pyfloat) list) list" where
  "corr df =
     map (\<lambda>(r, xs). (r, map (\<lambda>(c, ys). (c, corr_pair xs ys)) (columns df))) (columns df)"

text \<open>\<open>m.iloc[i, j]\<close> of a correlation matrix, for positions inside it.\<close>

definition entry :: "(string \<times> (string \<times> pyfloat) list) list \<Rightarrow> nat \<Rightarrow> nat \<Rightarrow> pyfloat" where
  "entry m i j = snd (snd (m ! i) ! j)"

text \<open>\<open>df.iloc[-1]\<close>: the last row, an \<open>IndexError\<close> on a table without rows.\<close>

definition iloc_last :: "DataFrame \<Rightarrow> error + (string \<times> pyfloat) list" where
  "iloc_last df =
     (if index df = [] then Inl IndexError
      else Inr (map (\<lambda>(c, xs). (c, last xs)) (columns df)))"

text \<open>The rows of a table with \<open>n\<close> dates, for stating what a row-wise operation keeps.\<close>

fun rows_of :: "nat \<Rightarrow> pyfloat list list \<Rightarrow> pyfloat list list" where
  "rows_of 0 cs = []"
| "rows_of (Suc n) cs = map hd cs # rows_of n (map tl cs)"

definition rows :: "DataFrame \<Rightarrow> pyfloat list list" where
  "rows df = rows_of (nrows df) (map snd (columns df))"

fun finite_nonzero :: "pyfloat \<Rightarrow> bool" where
  "finite_nonzero (Fin a) = (a \<noteq> 0)"
| "finite_nonzero _ = False"

text \<open>
  A return table as the loader derives it: one cell per date in every column and none
  missing.
\<close>

definition return_table :: "DataFrame \<Rightarrow> bool" where
  "return_table df =
     (well_formed df \<and> list_all (\<lambda>(c, xs). list_all (\<lambda>x. \<not> isnan x) xs) (columns df))"

section \<open>The data loader (\<open>factors.py\<close>)\<close>

text \<open>
  A \<open>pd.Series\<close> of prices: the (date, value) pairs in index order, one value per date.
\<close>

type_synonym Series = "(int \<times> pyfloat) list"

text \<open>
  What the loader reads from outside the repository: whether \<open>yfinance\<close> could be
  imported, what \<open>yf.download(ticker, start, end)\<close> gives (\<open>None\<close> when it raises; the
  column names after the ticker level is dropped), what the interpreter's \<open>hash\<close> of a
  string is in this process, and what \<open>np.random.normal(loc, scale, n)\<close> draws after
  \<open>np.random.seed(s)\<close>.
\<close>

record Env =
  yfinance_available :: bool
  yf_download :: "string \<Rightarrow> int \<Rightarrow> int \<Rightarrow> DataFrame option"
  py_hash :: "string \<Rightarrow> int"
  np_normal :: "nat \<Rightarrow> real \<Rightarrow> real \<Rightarrow> nat \<Rightarrow> real list"

text \<open>
  The loader's fields: the start and end dates (kept as ordinals, where the source keeps
  ISO strings that it parses back), the currency pair and the exchange-rate series once
  loaded.
\<close>

record FactorDataLoader =
  start_date :: int
  end_date :: int
  currency_pair :: string
  usd_eur_rate :: "Series option"





text \<open>
  \<open>rate.reindex(dates, method='ffill')\<close>: at each date the rate of the last position of
  the rate index that does not come after it. pandas asks for a monotonic rate index and
  raises \<open>ValueError\<close> otherwise.
\<close>

definition last_value :: "Series \<Rightarrow> pyfloat" where
  "last_value s = (if s = [] then NaN else snd (last s))"

definition reindex_ffill :: "Series \<Rightarrow> int list \<Rightarrow> error + Series" where
  "reindex_ffill rate dates =
     (if sorted_wrt (<) (map fst rate)
        then Inr (map (\<lambda>d. (d, last_value (filter (\<lambda>(k, v). k \<le> d) rate))) dates)
      else if sorted_wrt (>) (map fst rate)
        then Inr (map (\<lambda>d. (d, last_value (filter (\<lambda>(k, v). d \<le> k) rate))) dates)
      else Inl (ValueError ''index must be monotonic increasing or decreasing''))"

definition convert_usd_to_eur :: "FactorDataLoader \<Rightarrow> Series \<Rightarrow> error + Series" where
  "convert_usd_to_eur self usd_prices =
     (case usd_eur_rate self of
        Some rate \<Rightarrow>
          (case reindex_ffill rate (map fst usd_prices) of
             Inl e \<Rightarrow> Inl e
           | Inr aligned_rate \<Rightarrow>
               Inr (map2 (\<lambda>(d, p) (d', r). (d, fmul p r)) usd_prices aligned_rate))
      | None \<Rightarrow> Inr (map (\<lambda>(d, p). (d, fmul p (Fin (91 / 100)))) usd_prices))"

text \<open>
  \<open>pd.bdate_range\<close>: the days from start to end that are not a Saturday or a Sunday
  (ordinal 1 is a Monday).
\<close>

definition bdate_range :: "int \<Rightarrow> int \<Rightarrow> int list" where
  "bdate_range start end = filter (\<lambda>d. (d + 6) mod 7 < 5) [start..end]"

fun cumsum_from :: "real \<Rightarrow> real list \<Rightarrow> real list" where
  "cumsum_from acc [] = []"
| "cumsum_from acc (x # xs) = (acc + x) # cumsum_from (acc + x) xs"

definition cumsum :: "real list \<Rightarrow> real list" where
  "cumsum xs = cumsum_from 0 xs"

definition generate_mock_data :: "Env \<Rightarrow> FactorDataLoader \<Rightarrow> string \<Rightarrow> Series" where
  "generate_mock_data env self name =
     (let date_range = bdate_range (start_date self) (end_date self);
          n_days = length date_range;
          seed = nat (py_hash env name mod 2 ^ 32);
          initial_price = 100;
          drift = 2 / 10000;
          volatility = 1 / 100;
          returns = np_normal env seed drift volatility n_days;
          price_series = map (\<lambda>c. Fin (initial_price * exp c)) (cumsum returns)
      in zip date_range price_series)"








text \<open>\<open>get_returns\<close>: \<open>prices.pct_change().dropna()\<close>.\<close>

definition get_returns :: "bool \<Rightarrow> DataFrame \<Rightarrow> DataFrame" where
  "get_returns pad price_table = dropna (pct_change pad price_table)"

section \<open>The statistics engine (\<open>analysis.py\<close>)\<close>

record PerformanceAnalyzer =
  returns :: DataFrame
  prices :: DataFrame

definition returns_to_prices :: "DataFrame \<Rightarrow> real \<Rightarrow> DataFrame" where
  "returns_to_prices rets initial_value =
     map_columns (\<lambda>xs. map (fmul (Fin initial_value)) (cumprod (map (fadd (Fin 1)) xs))) rets"

definition init_PerformanceAnalyzer :: "DataFrame \<Rightarrow> PerformanceAnalyzer" where
  "init_PerformanceAnalyzer rets = \<lparr>returns = rets, prices = returns_to_prices rets 100\<rparr>"

definition calculate_cumulative_returns :: "PerformanceAnalyzer \<Rightarrow> DataFrame" where
  "calculate_cumulative_returns self =
     map_columns (\<lambda>xs. map (\<lambda>y. fsub y (Fin 1)) (cumprod (map (fadd (Fin 1)) xs)))
       (returns self)"

definition drawdown :: "pyfloat list \<Rightarrow> pyfloat list" where
  "drawdown xs =
     (let running_max = expanding_max xs
      in map2 (\<lambda>p m. fdiv (fsub p m) m) xs running_max)"

definition calculate_drawdowns :: "PerformanceAnalyzer \<Rightarrow> DataFrame" where
  "calculate_drawdowns self = map_columns drawdown (prices self)"

definition calculate_max_drawdown :: "PerformanceAnalyzer \<Rightarrow> (string \<times> pyfloat) list" where
  "calculate_max_drawdown self =
     map (\<lambda>(c, xs). (c, nanmin xs)) (columns (calculate_drawdowns self))"

definition calculate_correlation_matrix ::
  "PerformanceAnalyzer \<Rightarrow> (string \<times> (string \<times> pyfloat) list) list" where
  "calculate_correlation_matrix self = corr (returns self)"

text \<open>
  \<open>total_days / trading_days\<close> and \<open>1 / years\<close> divide Python numbers, so a zero divisor
  raises \<open>ZeroDivisionError\<close>; the power and the subtraction are on the table's cells.
\<close>

definition calculate_annualized_return ::
  "PerformanceAnalyzer \<Rightarrow> int \<Rightarrow> error + (string \<times> pyfloat) list" where
  "calculate_annualized_return self trading_days =
     (let total_days = nrows (returns self);
          total_return = map (\<lambda>(c, xs). (c, fsub (nanprod (map (fadd (Fin 1)) xs)) (Fin 1)))
                           (columns (returns self))
      in if trading_days = 0 then Inl ZeroDivisionError
         else let years = real total_days / real_of_int trading_days
              in if years = 0 then Inl ZeroDivisionError
                 else Inr (map (\<lambda>(c, t). (c, fsub (fpow (fadd (Fin 1) t) (1 / years)) (Fin 1)))
                             total_return))"

definition calculate_annualized_volatility ::
  "PerformanceAnalyzer \<Rightarrow> int \<Rightarrow> (string \<times> pyfloat) list" where
  "calculate_annualized_volatility self trading_days =
     map (\<lambda>(c, xs). (c, fmul (nanstd xs) (fsqrt (real_of_int trading_days))))
       (columns (returns self))"

definition calculate_sharpe_ratio ::
  "PerformanceAnalyzer \<Rightarrow> real \<Rightarrow> int \<Rightarrow> error + (string \<times> pyfloat) list" where
  "calculate_sharpe_ratio self risk_free_rate trading_days =
     (case calculate_annualized_return self trading_days of
        Inl e \<Rightarrow> Inl e
      | Inr ann_return \<Rightarrow>
          let ann_vol = calculate_annualized_volatility self trading_days
          in Inr (map2 (\<lambda>(c, r) (c', v). (c, fdiv (fsub r (Fin risk_free_rate)) v))
                    ann_return ann_vol))"

definition get_rolling_metrics ::
  "PerformanceAnalyzer \<Rightarrow> int \<Rightarrow> string \<Rightarrow> error + DataFrame" where
  "get_rolling_metrics self window metric =
     (if metric = ''volatility'' then
        (case rolling window nanstd (returns self) of
           Inl e \<Rightarrow> Inl e
         | Inr sd \<Rightarrow> Inr (map_columns (map (\<lambda>x. fmul x (fsqrt 252))) sd))
      else if metric = ''return'' then
        (case rolling window nanmean (returns self) of
           Inl e \<Rightarrow> Inl e
         | Inr m \<Rightarrow> Inr (map_columns (map (\<lambda>x. fmul x (Fin 252))) m))
      else if metric = ''sharpe'' then
        (case rolling window nanmean (returns self) of
           Inl e \<Rightarrow> Inl e
         | Inr m \<Rightarrow>
             (case rolling window nanstd (returns self) of
                Inl e \<Rightarrow> Inl e
              | Inr sd \<Rightarrow>
                  let rolling_return = map_columns (map (\<lambda>x. fmul x (Fin 252))) m;
                      rolling_vol = map_columns (map (\<lambda>x. fmul x (fsqrt 252))) sd
                  in Inr \<lparr>index = index rolling_return,
                          columns = map2 (\<lambda>(c, rs) (c', vs). (c, map2 fdiv rs vs))
                                      (columns rolling_return) (columns rolling_vol)\<rparr>))
      else Inl (ValueError (''Unknown metric: '' @ metric)))"

section \<open>The geography analyzer (\<open>geography.py\<close>)\<close>

record GeographyAnalyzer =
  region_prices :: DataFrame
  region_returns :: DataFrame

text \<open>
  The regional contribution, in the arithmetic \<open>rnd\<close>: the sum, the quotients and the
  products are each rounded.
\<close>

definition calculate_regional_contribution ::
  "(real \<Rightarrow> pyfloat) \<Rightarrow> GeographyAnalyzer \<Rightarrow> error + (string \<times> pyfloat) list" where
  "calculate_regional_contribution rnd self =
     (case iloc_last (region_prices self) of
        Inl e \<Rightarrow> Inl e
      | Inr final_values \<Rightarrow>
          let total_value = nansum_rounded rnd (map snd final_values)
          in Inr (map (\<lambda>(c, v). (c, rounded rnd (fmul (rounded rnd (fdiv v total_value)) (Fin 100))))
                    final_values))"

definition calculate_regional_volatility ::
  "GeographyAnalyzer \<Rightarrow> int \<Rightarrow> (string \<times> pyfloat) list" where
  "calculate_regional_volatility self annualization_factor =
     map (\<lambda>(c, xs). (c, fmul (nanstd xs) (fsqrt (real_of_int annualization_factor))))
       (columns (region_returns self))"

text \<open>
  \<open>(self.returns * weights).sum(axis=1)\<close>: the weighted cells of each row, summed with
  the missing ones skipped.
\<close>

definition weighted_row_sums :: "real list \<Rightarrow> DataFrame \<Rightarrow> pyfloat list" where
  "weighted_row_sums weights df =
     map (\<lambda>i. nansum (map2 (\<lambda>(c, xs) w. fmul (xs ! i) (Fin w)) (columns df) weights))
       [0..<nrows df]"

definition np_dot :: "real list \<Rightarrow> pyfloat list \<Rightarrow> pyfloat" where
  "np_dot ws vs = fsum (map2 (\<lambda>w v. fmul (Fin w) v) ws vs)"

text \<open>\<open>1.0 / len(columns)\<close> divides Python numbers and raises on a table without columns.\<close>

definition calculate_diversification_ratio :: "GeographyAnalyzer \<Rightarrow> error + pyfloat" where
  "calculate_diversification_ratio self =
     (let k = length (columns (region_returns self))
      in if k = 0 then Inl ZeroDivisionError
         else
           let weights = replicate k (1 / real k);
               individual_vols = map (\<lambda>(c, xs). nanstd xs) (columns (region_returns self));
               portfolio_returns = weighted_row_sums weights (region_returns self);
               portfolio_vol = nanstd portfolio_returns;
               weighted_avg_vol = np_dot weights individual_vols;
               div_ratio = fdiv weighted_avg_vol portfolio_vol
           in Inr div_ratio)"

text \<open>
  The diversification ratio in the words of the specification: the equal-weight average
  of the individual annualized volatilities, over the annualized volatility of the
  equal-weighted portfolio return series (each date's return is the average of the
  assets' returns), with 252 trading days a year.
\<close>

definition average :: "pyfloat list \<Rightarrow> pyfloat" where
  "average xs = fdiv (fsum xs) (Fin (real (length xs)))"

definition equal_weighted_portfolio :: "DataFrame \<Rightarrow> pyfloat list" where
  "equal_weighted_portfolio df =
     map (\<lambda>i. average (map (\<lambda>(c, xs). xs ! i) (columns df))) [0..<nrows df]"

definition spec_diversification_ratio :: "GeographyAnalyzer \<Rightarrow> pyfloat" where
  "spec_diversification_ratio self =
     fdiv (average (map snd (calculate_regional_volatility self 252)))
          (fmul (nanstd (equal_weighted_portfolio (region_returns self))) (fsqrt 252))"

section \<open>Returns derivation\<close>

lemma ffill_from_present: "list_all (\<lambda>x. \<not> isnan x) xs \<Longrightarrow> ffill_from p xs = xs"
  by (induction xs arbitrary: p) auto

lemma length_ffill_from: "length (ffill_from p xs) = length xs"
  by (induction xs arbitrary: p) auto

lemma finite_nonzero_present: "finite_nonzero x \<Longrightarrow> \<not> isnan x"
  by (cases x) auto

lemma pct_cell_present:
  "finite_nonzero cur \<Longrightarrow> finite_nonzero prev \<Longrightarrow> \<not> isnan (fsub (fdiv cur prev) (Fin 1))"
  by (cases cur; cases prev) (auto simp: fsub_def)

lemma pct_cell_first: "isnan (fsub (fdiv cur NaN) (Fin 1))"
  by (cases cur) (auto simp: fsub_def)

lemma notna_pct_pairs:
  "list_all finite_nonzero xs \<Longrightarrow> list_all finite_nonzero ys \<Longrightarrow>
   notna (map2 (\<lambda>cur prev. fsub (fdiv cur prev) (Fin 1)) xs ys)
     = replicate (min (length xs) (length ys)) True"
proof (induction xs arbitrary: ys)
  case Nil
  then show ?case by (simp add: notna_def)
next
  case (Cons x xs)
  then show ?case
    by (cases ys) (auto simp: notna_def pct_cell_present)
qed

lemma notna_pct_change_col:
  assumes "list_all finite_nonzero xs" and "xs \<noteq> []"
  shows "notna (pct_change_col pad xs) = False # replicate (length xs - 1) True"
proof -
  from assms(2) obtain x rest where xs: "xs = x # rest" by (cases xs) auto
  have present: "list_all (\<lambda>x. \<not> isnan x) xs"
    using assms(1) by (induction xs) (auto simp: finite_nonzero_present)
  have "ffill xs = xs"
    using present by (simp add: ffill_def ffill_from_present)
  then have fill: "pct_change_col pad xs
      = map2 (\<lambda>cur prev. fsub (fdiv cur prev) (Fin 1)) xs (shift1 xs)"
    by (simp add: pct_change_col_def)
  have rest: "list_all finite_nonzero rest" and all: "list_all finite_nonzero (x # rest)"
    using assms(1) xs by auto
  have "notna (map2 (\<lambda>cur prev. fsub (fdiv cur prev) (Fin 1)) rest (take (length rest) (x # rest)))
          = replicate (length rest) True"
  proof -
    have "list_all finite_nonzero (take (length rest) (x # rest))"
      using all by (metis list_all_iff in_set_takeD)
    from notna_pct_pairs[OF rest this] show ?thesis by simp
  qed
  then show ?thesis
    using pct_cell_first[of x]
    unfolding fill by (simp add: shift1_def xs notna_def)
qed

lemma map2_and_replicate_True: "map2 (\<and>) m (replicate (length m) True) = m"
  by (induction m) auto

lemma map2_and_same: "map2 (\<and>) m m = m"
  by (induction m) auto

lemma mask_all_present_same:
  assumes "list_all (\<lambda>(c, xs). notna xs = m) cols" and "cols \<noteq> []"
  shows "mask_all_present (length m) cols = m"
  using assms
proof (induction cols)
  case Nil
  then show ?case by simp
next
  case (Cons col cols)
  obtain c xs where col: "col = (c, xs)" by (cases col)
  show ?case
  proof (cases "cols = []")
    case True
    with Cons.prems col show ?thesis
      by (simp add: mask_all_present_def map2_and_replicate_True)
  next
    case False
    with Cons have "mask_all_present (length m) cols = m" by simp
    with Cons.prems col show ?thesis
      by (simp add: mask_all_present_def map2_and_same)
  qed
qed

lemma select_rows_replicate_True: "select_rows (replicate k True) xs = take k xs"
proof (induction k arbitrary: xs)
  case 0
  then show ?case by (simp add: select_rows_def)
next
  case (Suc k)
  then show ?case by (cases xs) (auto simp: select_rows_def)
qed

lemma select_rows_drop_first:
  "length xs = Suc k \<Longrightarrow> select_rows (False # replicate k True) xs = tl xs"
  using select_rows_replicate_True[of k "tl xs"]
  by (cases xs) (auto simp: select_rows_def)

lemma column_names_keep_rows: "column_names (keep_rows m df) = column_names df"
  by (simp add: column_names_def keep_rows_def comp_def case_prod_unfold)

lemma column_names_pct_change: "column_names (pct_change pad df) = column_names df"
  by (simp add: column_names_def pct_change_def comp_def case_prod_unfold)

lemma column_names_get_returns:
  "column_names (get_returns pad price_table) = column_names price_table"
  by (simp add: get_returns_def dropna_def column_names_keep_rows column_names_pct_change)

lemma get_returns_mask:
  assumes wf: "well_formed price_table" and rows: "index price_table \<noteq> []"
    and cols: "columns price_table \<noteq> []"
    and cells: "list_all (\<lambda>(c, xs). list_all finite_nonzero xs) (columns price_table)"
  shows "mask_all_present (nrows (pct_change pad price_table))
             (columns (pct_change pad price_table))
           = False # replicate (nrows price_table - 1) True"
proof -
  let ?m = "False # replicate (nrows price_table - 1) True"
  have len: "length ?m = nrows (pct_change pad price_table)"
    using rows by (simp add: nrows_def pct_change_def)
  have "list_all (\<lambda>(c, xs). notna xs = ?m) (columns (pct_change pad price_table))"
    unfolding list_all_iff
  proof (clarify)
    fix c ys assume "(c, ys) \<in> set (columns (pct_change pad price_table))"
    then obtain xs where mem: "(c, xs) \<in> set (columns price_table)"
      and ys: "ys = pct_change_col pad xs"
      by (auto simp: pct_change_def)
    from mem wf have l: "length xs = length (index price_table)"
      by (auto simp: well_formed_def list_all_iff)
    from mem cells have "list_all finite_nonzero xs" by (auto simp: list_all_iff)
    moreover from l rows have "xs \<noteq> []" by auto
    ultimately show "notna ys = ?m"
      using notna_pct_change_col[of xs pad] l by (simp add: ys nrows_def)
  qed
  moreover have "columns (pct_change pad price_table) \<noteq> []"
    using cols by (simp add: pct_change_def)
  ultimately show ?thesis
    using mask_all_present_same[of ?m "columns (pct_change pad price_table)"] len by simp
qed

text \<open>
  C1, as amended. For every price table with at least one row and at least one column
  whose cells are all finite and nonzero, the table that \<open>get_returns\<close> derives has
  exactly one row fewer and the same columns, whether \<open>pct_change\<close> forward-fills or not.
\<close>

theorem get_returns_one_row_fewer:
  assumes wf: "well_formed price_table" and rows: "index price_table \<noteq> []"
    and cols: "columns price_table \<noteq> []"
    and cells: "list_all (\<lambda>(c, xs). list_all finite_nonzero xs) (columns price_table)"
  shows "int (nrows (get_returns pad price_table)) = int (nrows price_table) - 1
         \<and> column_names (get_returns pad price_table) = column_names price_table"
proof -
  obtain k where k: "length (index price_table) = Suc k"
    using rows by (cases "index price_table") auto
  have "index (get_returns pad price_table) = tl (index price_table)"
    using get_returns_mask[OF assms, of pad] k select_rows_drop_first[of "index price_table" k]
    by (simp add: get_returns_def dropna_def keep_rows_def nrows_def pct_change_def)
  then show ?thesis
    using k by (simp add: nrows_def column_names_get_returns)
qed

text \<open>
  C1, witness: three dates of one asset at 100, 110 and 99 give a return table of two
  rows under the same column.
\<close>

theorem get_returns_one_row_fewer_witness:
  "well_formed \<lparr>index = [736695, 736696, 736697],
        columns = [(''US Market'', [Fin 100, Fin 110, Fin 99])]\<rparr>
   \<and> int (nrows (get_returns True \<lparr>index = [736695, 736696, 736697],
        columns = [(''US Market'', [Fin 100, Fin 110, Fin 99])]\<rparr>)) = 2
   \<and> column_names (get_returns True \<lparr>index = [736695, 736696, 736697],
        columns = [(''US Market'', [Fin 100, Fin 110, Fin 99])]\<rparr>) = [''US Market'']"
  using get_returns_one_row_fewer[of "\<lparr>index = [736695, 736696, 736697],
        columns = [(''US Market'', [Fin 100, Fin 110, Fin 99])]\<rparr>" True]
  by (simp add: well_formed_def nrows_def column_names_def)

text \<open>
  C1 as stated fails: a price table of three dates in which one asset has no price on
  the first date (the assembled table keeps such a row, since the other asset has one)
  gives a return table of one row, not two, with and without forward-filling.
\<close>

theorem get_returns_row_count_counterexample:
  "well_formed \<lparr>index = [736695, 736696, 736697],
        columns = [(''US Market'', [Fin 100, Fin 101, Fin 102]),
                   (''Europe'', [NaN, Fin 50, Fin 51])]\<rparr>
   \<and> int (nrows (get_returns True \<lparr>index = [736695, 736696, 736697],
        columns = [(''US Market'', [Fin 100, Fin 101, Fin 102]),
                   (''Europe'', [NaN, Fin 50, Fin 51])]\<rparr>))
      \<noteq> int (nrows \<lparr>index = [736695, 736696, 736697],
        columns = [(''US Market'', [Fin 100, Fin 101, Fin 102]),
                   (''Europe'', [NaN, Fin 50, Fin 51])]\<rparr>) - 1
   \<and> int (nrows (get_returns False \<lparr>index = [736695, 736696, 736697],
        columns = [(''US Market'', [Fin 100, Fin 101, Fin 102]),
                   (''Europe'', [NaN, Fin 50, Fin 51])]\<rparr>))
      \<noteq> int (nrows \<lparr>index = [736695, 736696, 736697],
        columns = [(''US Market'', [Fin 100, Fin 101, Fin 102]),
                   (''Europe'', [NaN, Fin 50, Fin 51])]\<rparr>) - 1"
  by (simp add: get_returns_def dropna_def pct_change_def pct_change_col_def nrows_def
      keep_rows_def mask_all_present_def notna_def select_rows_def ffill_def shift1_def
      fsub_def well_formed_def)

text \<open>
  The statements below about return tables take a table in which no cell is missing.
  Every table that \<open>get_returns\<close> derives is one.
\<close>

lemma length_mask_all_present:
  "list_all (\<lambda>(c, xs). length xs = n) cols \<Longrightarrow> length (mask_all_present n cols) = n"
  by (induction cols) (auto simp: mask_all_present_def notna_def)

lemma mask_all_present_nth:
  assumes "list_all (\<lambda>(c, xs). length xs = n) cols" and "(c, xs) \<in> set cols"
    and "i < n" and "mask_all_present n cols ! i"
  shows "\<not> isnan (xs ! i)"
  using assms
proof (induction cols)
  case Nil
  then show ?case by simp
next
  case (Cons col cols)
  obtain c' ys where col: "col = (c', ys)" by (cases col)
  from Cons.prems(1) col have ly: "length ys = n"
    and rest: "list_all (\<lambda>(c, xs). length xs = n) cols" by simp_all
  have lm: "length (mask_all_present n cols) = n"
    by (rule length_mask_all_present[OF rest])
  have "mask_all_present n (col # cols) ! i
          = (\<not> isnan (ys ! i) \<and> mask_all_present n cols ! i)"
    using ly lm Cons.prems(3) by (simp add: mask_all_present_def col notna_def)
  with Cons.prems(4) have here: "\<not> isnan (ys ! i)" and there: "mask_all_present n cols ! i"
    by simp_all
  show ?case
  proof (cases "(c, xs) = col")
    case True
    with col here show ?thesis by simp
  next
    case False
    with Cons.prems(2) have "(c, xs) \<in> set cols" by simp
    from Cons.IH[OF rest this Cons.prems(3) there] show ?thesis .
  qed
qed

lemma set_select_rows:
  "x \<in> set (select_rows m xs) \<Longrightarrow> \<exists>i. i < length m \<and> i < length xs \<and> m ! i \<and> x = xs ! i"
proof -
  assume "x \<in> set (select_rows m xs)"
  then have "(True, x) \<in> set (zip m xs)"
    by (auto simp: select_rows_def)
  then show ?thesis
    by (auto simp: in_set_zip)
qed

lemma length_select_rows:
  "length xs = length m \<Longrightarrow> length (select_rows m xs) = length (filter (\<lambda>b. b) m)"
proof (induction m arbitrary: xs)
  case Nil
  then show ?case by (simp add: select_rows_def)
next
  case (Cons b m)
  then obtain x rest where "xs = x # rest" "length rest = length m" by (cases xs) auto
  with Cons.IH[of rest] show ?case by (simp add: select_rows_def)
qed

lemma return_table_dropna:
  assumes wf: "well_formed df"
  shows "return_table (dropna df)"
proof -
  let ?n = "nrows df"
  let ?m = "mask_all_present ?n (columns df)"
  have lens: "list_all (\<lambda>(c, xs). length xs = ?n) (columns df)"
    using wf by (simp add: well_formed_def nrows_def)
  have lm: "length ?m = ?n" by (rule length_mask_all_present[OF lens])
  have "length (select_rows ?m xs) = length (select_rows ?m (index df))
        \<and> list_all (\<lambda>x. \<not> isnan x) (select_rows ?m xs)"
    if mem: "(c, xs) \<in> set (columns df)" for c xs
  proof
    from mem lens have lx: "length xs = ?n" by (auto simp: list_all_iff)
    with lm show "length (select_rows ?m xs) = length (select_rows ?m (index df))"
      by (simp add: length_select_rows nrows_def)
    show "list_all (\<lambda>x. \<not> isnan x) (select_rows ?m xs)"
      unfolding list_all_iff
    proof
      fix x assume "x \<in> set (select_rows ?m xs)"
      from set_select_rows[OF this] obtain i where
        i: "i < length ?m" "?m ! i" "x = xs ! i" by blast
      from mask_all_present_nth[OF lens mem] i lm show "\<not> isnan x" by simp
    qed
  qed
  then show ?thesis
    by (auto simp: return_table_def well_formed_def dropna_def keep_rows_def list_all_iff)
qed

lemma well_formed_pct_change: "well_formed df \<Longrightarrow> well_formed (pct_change pad df)"
  by (auto simp: well_formed_def pct_change_def list_all_iff pct_change_col_def Let_def
      shift1_def ffill_def length_ffill_from)

lemma return_table_get_returns:
  "well_formed price_table \<Longrightarrow> return_table (get_returns pad price_table)"
  unfolding get_returns_def by (intro return_table_dropna well_formed_pct_change)

section \<open>Cumulative returns\<close>

lemma present_id: "list_all (\<lambda>x. \<not> isnan x) xs \<Longrightarrow> present xs = xs"
  by (induction xs) (auto simp: present_def)

lemma fadd_one_present: "\<not> isnan x \<Longrightarrow> \<not> isnan (fadd (Fin 1) x)"
  by (cases x) auto

lemma fmul_one_left: "fmul (Fin 1) x = x"
  by (cases x) (auto simp: inf_of_def)

lemma last_np_cumprod_from: "last (a # np_cumprod_from a xs) = foldl fmul a xs"
  by (induction xs arbitrary: a) auto

lemma length_np_cumprod_from: "length (np_cumprod_from a xs) = length xs"
  by (induction xs arbitrary: a) auto

lemma length_np_cumprod: "length (np_cumprod xs) = length xs"
  by (cases xs) (auto simp: np_cumprod_def length_np_cumprod_from)

lemma last_np_cumprod: "xs \<noteq> [] \<Longrightarrow> last (np_cumprod xs) = foldl fmul (Fin 1) xs"
  using last_np_cumprod_from
  by (cases xs) (auto simp: np_cumprod_def fmul_one_left simp del: last.simps)

lemma map2_keep_second:
  "length xs = length ys \<Longrightarrow> list_all (\<lambda>x. \<not> P x) xs
     \<Longrightarrow> map2 (\<lambda>x y. if P x then d else y) xs ys = ys"
  by (induction xs ys rule: list_induct2) auto

lemma cumprod_present:
  assumes "list_all (\<lambda>x. \<not> isnan x) xs"
  shows "cumprod xs = np_cumprod xs"
proof -
  have "map (\<lambda>x. if isnan x then Fin 1 else x) xs = xs"
    using assms by (induction xs) auto
  then show ?thesis
    using assms by (simp add: cumprod_def map2_keep_second length_np_cumprod)
qed

lemma last_cumulative_column:
  assumes "list_all (\<lambda>x. \<not> isnan x) xs" and "xs \<noteq> []"
  shows "last (map (\<lambda>y. fsub y (Fin 1)) (cumprod (map (fadd (Fin 1)) xs)))
           = fsub (nanprod (map (fadd (Fin 1)) xs)) (Fin 1)"
proof -
  let ?ys = "map (fadd (Fin 1)) xs"
  have p: "list_all (\<lambda>x. \<not> isnan x) ?ys"
    using assms(1) by (induction xs) (auto simp: fadd_one_present)
  have ne: "?ys \<noteq> []" using assms(2) by simp
  have "np_cumprod ?ys \<noteq> []"
    using ne length_np_cumprod[of ?ys] by (metis length_0_conv)
  then show ?thesis
    using p ne by (simp add: cumprod_present last_map last_np_cumprod nanprod_def present_id)
qed

text \<open>
  C5. For every return table with at least one row, the last row of
  \<open>calculate_cumulative_returns\<close> holds, for each asset, the product over all
  observations of \<open>1 + r\<close>, minus 1 (the product as \<open>prod()\<close> computes it for the
  total return).
\<close>

theorem cumulative_returns_last_row:
  assumes rt: "return_table (returns self)" and rows: "index (returns self) \<noteq> []"
  shows "iloc_last (calculate_cumulative_returns self)
           = Inr (map (\<lambda>(c, xs). (c, fsub (nanprod (map (fadd (Fin 1)) xs)) (Fin 1)))
                    (columns (returns self)))"
proof -
  have "\<And>c xs. (c, xs) \<in> set (columns (returns self))
          \<Longrightarrow> list_all (\<lambda>x. \<not> isnan x) xs \<and> xs \<noteq> []"
    using rt rows by (auto simp: return_table_def well_formed_def list_all_iff)
  then have "map (\<lambda>(c, xs). (c, last (map (\<lambda>y. fsub y (Fin 1)) (cumprod (map (fadd (Fin 1)) xs)))))
                 (columns (returns self))
             = map (\<lambda>(c, xs). (c, fsub (nanprod (map (fadd (Fin 1)) xs)) (Fin 1)))
                 (columns (returns self))"
    by (auto simp: last_cumulative_column)
  then show ?thesis
    using rows
    by (simp add: iloc_last_def calculate_cumulative_returns_def map_columns_def comp_def
        case_prod_unfold)
qed

lemma nanprod_growth_finite:
  "nanprod (map (fadd (Fin 1)) (map Fin rs)) = Fin (prod_list (map (\<lambda>r. 1 + r) rs))"
proof -
  have "foldl fmul (Fin a) (map (fadd (Fin 1)) (map Fin rs))
          = Fin (a * prod_list (map (\<lambda>r. 1 + r) rs))" for a
    by (induction rs arbitrary: a) (auto simp: algebra_simps)
  moreover have "present (map (fadd (Fin 1)) (map Fin rs)) = map (fadd (Fin 1)) (map Fin rs)"
    by (induction rs) (auto simp: present_def)
  ultimately show ?thesis by (simp add: nanprod_def)
qed

text \<open>
  C5, witness: the returns 0.01, -0.02 and 0.03 of one asset give the cumulative return
  \<open>1.01 * 0.98 * 1.03 - 1\<close> in the last row.
\<close>

theorem cumulative_returns_last_row_witness:
  "iloc_last (calculate_cumulative_returns (init_PerformanceAnalyzer
      \<lparr>index = [736695, 736696, 736697],
       columns = [(''Value'', [Fin (1 / 100), Fin (- (2 / 100)), Fin (3 / 100)])]\<rparr>))
   = Inr [(''Value'', Fin (101 / 100 * (98 / 100) * (103 / 100) - 1))]"
  using cumulative_returns_last_row[of "init_PerformanceAnalyzer
      \<lparr>index = [736695, 736696, 736697],
       columns = [(''Value'', [Fin (1 / 100), Fin (- (2 / 100)), Fin (3 / 100)])]\<rparr>"]
  by (simp add: init_PerformanceAnalyzer_def return_table_def well_formed_def nanprod_def
      present_def fsub_def)

section \<open>Drawdowns\<close>

lemma fmax2_Fin: "fmax2 (Fin a) (Fin b) = Fin (max a b)"
  by (simp add: fmax2_def max_def)

lemma expanding_max_from_nth:
  "i < length ps \<Longrightarrow>
   expanding_max_from (Fin m) (map Fin ps) ! i = Fin (Max (insert m (set (take (Suc i) ps))))"
proof (induction ps arbitrary: m i)
  case Nil
  then show ?case by simp
next
  case (Cons p ps)
  have step: "expanding_max_from (Fin m) (map Fin (p # ps))
               = Fin (max m p) # expanding_max_from (Fin (max m p)) (map Fin ps)"
    by (simp add: fmax2_Fin Let_def)
  show ?case
  proof (cases i)
    case 0
    have "Max {m, p} = max m p" by simp
    with 0 show ?thesis unfolding step by simp
  next
    case (Suc j)
    with Cons.prems have j: "j < length ps" by simp
    have ne: "set (take (Suc j) ps) \<noteq> {}"
      using j by (cases ps) auto
    have "Max (insert (max m p) (set (take (Suc j) ps)))
            = Max (insert m (insert p (set (take (Suc j) ps))))"
      using ne by (simp add: max.assoc)
    with Cons.IH[OF j, of "max m p"] Suc show ?thesis
      unfolding step by simp
  qed
qed

lemma length_expanding_max_from: "length (expanding_max_from m xs) = length xs"
  by (induction xs arbitrary: m) (auto simp: Let_def)

lemma prep_values_finite: "prep_values (map Fin ps) = map Fin ps"
  by (induction ps) (simp_all add: prep_values_def)

lemma length_expanding_max: "length (expanding_max xs) = length xs"
  by (simp add: expanding_max_def length_expanding_max_from prep_values_def)

lemma expanding_max_nth:
  assumes "i < length ps"
  shows "expanding_max (map Fin ps) ! i = Fin (Max (set (take (Suc i) ps)))"
proof (cases ps)
  case Nil
  with assms show ?thesis by simp
next
  case (Cons p rest)
  have step: "expanding_max (map Fin (p # rest)) = Fin p # expanding_max_from (Fin p) (map Fin rest)"
    unfolding expanding_max_def prep_values_finite by (simp add: Let_def)
  show ?thesis
  proof (cases i)
    case 0
    with Cons show ?thesis unfolding Cons step by simp
  next
    case (Suc j)
    with assms Cons have j: "j < length rest" by simp
    from expanding_max_from_nth[OF j, of p] Suc show ?thesis
      unfolding Cons step by simp
  qed
qed


lemma fmin2_Fin: "fmin2 (Fin a) (Fin b) = Fin (min a b)"
  by (auto simp: fmin2_def min_def)

lemma running_max_facts:
  assumes "i < length ps" and "\<forall>p\<in>set ps. 0 < (p::real)"
  shows "ps ! i \<le> Max (set (take (Suc i) ps))" and "0 < Max (set (take (Suc i) ps))"
proof -
  have "take (Suc i) ps ! i \<in> set (take (Suc i) ps)"
    using assms(1) by (intro nth_mem) simp
  then have mem: "ps ! i \<in> set (take (Suc i) ps)"
    by simp
  then show le: "ps ! i \<le> Max (set (take (Suc i) ps))" by simp
  have "0 < ps ! i" using assms by simp
  with le show "0 < Max (set (take (Suc i) ps))" by linarith
qed

lemma drawdown_finite:
  assumes pos: "\<forall>p\<in>set ps. 0 < p"
  shows "drawdown (map Fin ps)
           = map Fin (map (\<lambda>i. (ps ! i - Max (set (take (Suc i) ps))) / Max (set (take (Suc i) ps)))
                        [0..<length ps])"
proof (rule nth_equalityI)
  show "length (drawdown (map Fin ps)) = length (map Fin (map (\<lambda>i. (ps ! i - Max (set (take (Suc i) ps))) / Max (set (take (Suc i) ps)))
                        [0..<length ps]))"
    by (simp add: drawdown_def length_expanding_max)
next
  fix i assume "i < length (drawdown (map Fin ps))"
  then have i: "i < length ps"
    by (simp add: drawdown_def length_expanding_max)
  from running_max_facts(2)[OF i pos] have "Max (set (take (Suc i) ps)) \<noteq> 0" by simp
  with i show "drawdown (map Fin ps) ! i = map Fin (map (\<lambda>i. (ps ! i - Max (set (take (Suc i) ps))) / Max (set (take (Suc i) ps)))
                        [0..<length ps]) ! i"
    by (simp add: drawdown_def Let_def expanding_max_nth fsub_def length_expanding_max)
qed

lemma foldl_fmin2_Fin: "foldl fmin2 (Fin d) (map Fin ds) = Fin (fold min ds d)"
proof (induction ds arbitrary: d)
  case Nil
  show ?case by simp
next
  case (Cons a ds)
  have "min d a = min a d" by (rule min.commute)
  with Cons[of "min d a"] show ?case by (simp add: fmin2_Fin)
qed

lemma nanmin_finite: "ds \<noteq> [] \<Longrightarrow> nanmin (map Fin ds) = Fin (Min (set ds))"
proof -
  assume "ds \<noteq> []"
  then obtain d rest where ds: "ds = d # rest" by (cases ds) auto
  have "present (map Fin ds) = map Fin ds"
    by (induction ds) (auto simp: present_def)
  moreover have "fold min rest d = Min (set (d # rest))"
    by (rule Min.set_eq_fold[symmetric])
  ultimately show ?thesis
    by (simp add: nanmin_def ds foldl_fmin2_Fin)
qed

text \<open>
  C6. For every price series of the analyzer with positive prices, each value of the
  drawdown series is the price's distance below its running maximum to date, relative
  to that maximum: it is at most 0, and it is 0 exactly at the dates where the price
  equals the running maximum; the maximum drawdown is the minimum of the series.
\<close>

theorem drawdowns_nonpositive:
  assumes col: "(c, xs) \<in> set (columns (prices self))"
    and fin: "xs = map Fin ps" and pos: "\<forall>p\<in>set ps. 0 < p"
  shows "\<exists>ds. (c, map Fin ds) \<in> set (columns (calculate_drawdowns self))
           \<and> length ds = length ps
           \<and> (\<forall>i<length ps.
                 ds ! i = (ps ! i - Max (set (take (Suc i) ps))) / Max (set (take (Suc i) ps))
                 \<and> ds ! i \<le> 0
                 \<and> (ds ! i = 0 \<longleftrightarrow> ps ! i = Max (set (take (Suc i) ps))))
           \<and> (ps \<noteq> [] \<longrightarrow> (c, Fin (Min (set ds))) \<in> set (calculate_max_drawdown self))"
proof -
  let ?M = "\<lambda>i. Max (set (take (Suc i) ps))"
  let ?ds = "map (\<lambda>i. (ps ! i - ?M i) / ?M i) [0..<length ps]"
  have dd: "drawdown xs = map Fin ?ds"
    using drawdown_finite[OF pos] fin by simp
  have mem: "(c, map Fin ?ds) \<in> set (columns (calculate_drawdowns self))"
    using col dd by (force simp: calculate_drawdowns_def map_columns_def)
  have cells: "?ds ! i = (ps ! i - ?M i) / ?M i \<and> ?ds ! i \<le> 0 \<and> (?ds ! i = 0 \<longleftrightarrow> ps ! i = ?M i)"
    if i: "i < length ps" for i
  proof -
    note f = running_max_facts[OF i pos]
    have "(ps ! i - ?M i) / ?M i \<le> 0"
      using f by (simp add: divide_nonpos_pos)
    moreover have "(ps ! i - ?M i) / ?M i = 0 \<longleftrightarrow> ps ! i = ?M i"
      using f by auto
    ultimately show ?thesis using i by simp
  qed
  have "(c, Fin (Min (set ?ds))) \<in> set (calculate_max_drawdown self)" if "ps \<noteq> []"
  proof -
    from that have "?ds \<noteq> []" by simp
    from nanmin_finite[OF this] have "nanmin (map Fin ?ds) = Fin (Min (set ?ds))" .
    with mem show ?thesis
      by (force simp: calculate_max_drawdown_def)
  qed
  with mem cells show ?thesis
    by (intro exI[of _ ?ds]) simp
qed


text \<open>
  C6, witness: the prices 100, 110, 95 and 120 give the maximum drawdown
  \<open>(95 - 110) / 110\<close>.
\<close>

theorem drawdowns_nonpositive_witness:
  "(''Value'', map Fin [100, 110, 95, 120]) \<in> set (columns (prices (init_PerformanceAnalyzer
       \<lparr>index = [736695, 736696, 736697, 736698],
        columns = [(''Value'', [Fin 0, Fin (1 / 10), Fin (- (3 / 22)), Fin (5 / 19)])]\<rparr>)))
   \<and> (\<exists>ds. (''Value'', map Fin ds) \<in> set (columns (calculate_drawdowns (init_PerformanceAnalyzer
       \<lparr>index = [736695, 736696, 736697, 736698],
        columns = [(''Value'', [Fin 0, Fin (1 / 10), Fin (- (3 / 22)), Fin (5 / 19)])]\<rparr>)))
         \<and> (\<forall>i<4. ds ! i \<le> 0)
         \<and> (''Value'', Fin (Min (set ds))) \<in> set (calculate_max_drawdown (init_PerformanceAnalyzer
       \<lparr>index = [736695, 736696, 736697, 736698],
        columns = [(''Value'', [Fin 0, Fin (1 / 10), Fin (- (3 / 22)), Fin (5 / 19)])]\<rparr>)))
   \<and> calculate_max_drawdown (init_PerformanceAnalyzer
       \<lparr>index = [736695, 736696, 736697, 736698],
        columns = [(''Value'', [Fin 0, Fin (1 / 10), Fin (- (3 / 22)), Fin (5 / 19)])]\<rparr>)
       = [(''Value'', Fin ((95 - 110) / 110))]"
proof -
  let ?pa = "init_PerformanceAnalyzer
       \<lparr>index = [736695, 736696, 736697, 736698],
        columns = [(''Value'', [Fin 0, Fin (1 / 10), Fin (- (3 / 22)), Fin (5 / 19)])]\<rparr>"
  have pr: "columns (prices ?pa) = [(''Value'', map Fin [100, 110, 95, 120])]"
    by (simp add: init_PerformanceAnalyzer_def returns_to_prices_def map_columns_def
        cumprod_def np_cumprod_def)
  have col: "(''Value'', map Fin [100, 110, 95, 120]) \<in> set (columns (prices ?pa))"
    unfolding pr by simp
  have pos: "\<forall>p\<in>set [100, 110, 95, 120 :: real]. 0 < p" by simp
  have md: "calculate_max_drawdown ?pa = [(''Value'', Fin ((95 - 110) / 110))]"
    by (simp add: calculate_max_drawdown_def calculate_drawdowns_def map_columns_def pr
        drawdown_def expanding_max_def prep_values_def Let_def fmax2_def fsub_def nanmin_def
        present_def fmin2_def)
  let ?ps = "[100, 110, 95, 120] :: real list"
  from drawdowns_nonpositive[OF col refl pos] obtain ds where
    a: "(''Value'', map Fin ds) \<in> set (columns (calculate_drawdowns ?pa))"
    and b: "\<forall>i<length ?ps.
               ds ! i = (?ps ! i - Max (set (take (Suc i) ?ps))) / Max (set (take (Suc i) ?ps))
               \<and> ds ! i \<le> 0
               \<and> (ds ! i = 0 \<longleftrightarrow> ?ps ! i = Max (set (take (Suc i) ?ps)))"
    and c: "?ps \<noteq> [] \<longrightarrow> (''Value'', Fin (Min (set ds))) \<in> set (calculate_max_drawdown ?pa)"
    by blast
  have l: "length ?ps = 4" by simp
  from b have b': "\<forall>i<4. ds ! i \<le> 0" unfolding l by blast
  from c have c': "(''Value'', Fin (Min (set ds))) \<in> set (calculate_max_drawdown ?pa)" by simp
  note a b' c'
  with col md show ?thesis by blast
qed

section \<open>Regional contribution\<close>

lemma fadd_finite: "fadd a b = Fin t \<Longrightarrow> \<exists>x y. a = Fin x \<and> b = Fin y \<and> t = x + y"
  by (cases a; cases b) auto

lemma foldl_fadd_finite:
  "foldl fadd a xs = Fin t \<Longrightarrow>
   \<exists>x rs. a = Fin x \<and> xs = map Fin rs \<and> t = x + sum_list rs"
proof (induction xs arbitrary: a t)
  case Nil
  then show ?case by simp
next
  case (Cons y ys)
  from Cons.prems have "foldl fadd (fadd a y) ys = Fin t" by simp
  from Cons.IH[OF this] obtain z rs where z: "fadd a y = Fin z" "ys = map Fin rs" "t = z + sum_list rs"
    by blast
  from fadd_finite[OF z(1)] obtain x v where "a = Fin x" "y = Fin v" "z = x + v" by blast
  with z have "a = Fin x \<and> y # ys = map Fin (v # rs) \<and> t = x + sum_list (v # rs)" by simp
  then show ?case by (intro exI[of _ x] exI[of _ "v # rs"])
qed

lemma foldl_fadd_Fin: "foldl fadd (Fin x) (map Fin rs) = Fin (x + sum_list rs)"
  by (induction rs arbitrary: x) (auto simp: algebra_simps)

lemma nansum_finite:
  "nansum xs = Fin t \<Longrightarrow> \<exists>rs. present xs = map Fin rs \<and> t = sum_list rs"
  using foldl_fadd_finite[of "Fin 0" "present xs" t] by (auto simp: nansum_def)

lemma present_map_contribution:
  assumes "T \<noteq> 0"
  shows "present (map (\<lambda>v. fmul (fdiv v (Fin T)) (Fin 100)) xs)
           = map (\<lambda>v. fmul (fdiv v (Fin T)) (Fin 100)) (present xs)"
proof (induction xs)
  case Nil
  show ?case by (simp add: present_def)
next
  case (Cons x xs)
  have "isnan (fmul (fdiv x (Fin T)) (Fin 100)) = isnan x"
    using assms by (cases x) (auto simp: inf_of_def)
  with Cons show ?case by (simp add: present_def)
qed

text \<open>How \<open>round_double\<close> evaluates on a number between two powers of 2.\<close>

lemma floor_log2:
  assumes "0 < x" and "2 powi k \<le> x" and "x < 2 powi (k + 1)"
  shows "\<lfloor>log 2 x\<rfloor> = k"
proof (rule floor_unique)
  have "2 powr (of_int k) \<le> x" using assms(2) by (simp add: powr_real_of_int')
  then show "of_int k \<le> log 2 x" using assms(1) by (simp add: le_log_iff)
  have "(2::real) powr (of_int (k + 1)) = 2 powi (k + 1)"
    by (rule powr_real_of_int') simp_all
  with assms(3) have "x < 2 powr (of_int (k + 1))" by simp
  then have "log 2 x < of_int (k + 1)" using assms(1) by (simp add: log_less_iff)
  then show "log 2 x < of_int k + 1" by simp
qed

lemma round_double_normal:
  assumes "0 < x" and "2 powi k \<le> x" and "x < 2 powi (k + 1)" and "- 1022 \<le> k"
    and "\<bar>real_of_int (round_half_even (x / 2 powi (k - 52))) * 2 powi (k - 52)\<bar> < 2 ^ 1024"
  shows "round_double x = Fin (real_of_int (round_half_even (x / 2 powi (k - 52))) * 2 powi (k - 52))"
proof -
  have "\<lfloor>log 2 \<bar>x\<bar>\<rfloor> = k" using floor_log2[OF assms(1-3)] assms(1) by simp
  then have "max \<lfloor>log 2 \<bar>x\<bar>\<rfloor> (- 1022) = k" using assms(4) by simp
  then show ?thesis
    using assms(1,5) by (simp add: round_double_def Let_def)
qed


lemma rounded_exact: "rounded Fin x = x"
  by (cases x) (auto simp: rounded_def)

lemma nansum_rounded_exact: "nansum_rounded Fin xs = nansum xs"
  by (simp add: nansum_rounded_def nansum_def rounded_exact)

text \<open>
  C10, as amended. For every price table whose final-row values sum (as \<open>sum()\<close>
  does, skipping missing values) to a nonzero total, \<open>calculate_regional_contribution\<close>
  returns, for each asset, its final price divided by that total, times 100, each
  operation rounded by the arithmetic; where the arithmetic is exact, these percentages
  sum to exactly 100.
\<close>

theorem regional_contribution_percentages:
  assumes last: "iloc_last (region_prices self) = Inr final_values"
    and total: "nansum_rounded rnd (map snd final_values) = Fin T" and nz: "T \<noteq> 0"
  shows "\<exists>contributions.
           calculate_regional_contribution rnd self = Inr contributions
           \<and> map fst contributions = map fst final_values
           \<and> map snd contributions
               = map (\<lambda>v. rounded rnd (fmul (rounded rnd (fdiv v (Fin T))) (Fin 100)))
                   (map snd final_values)
           \<and> ((\<forall>x. rnd x = Fin x) \<longrightarrow> nansum_rounded rnd (map snd contributions) = Fin 100)"
proof -
  let ?g = "\<lambda>v. rounded rnd (fmul (rounded rnd (fdiv v (Fin T))) (Fin 100))"
  let ?cs = "map (\<lambda>(c, v). (c, ?g v)) final_values"
  have res: "calculate_regional_contribution rnd self = Inr ?cs"
    using last total by (simp add: calculate_regional_contribution_def)
  have names: "map fst ?cs = map fst final_values"
    by (simp add: comp_def case_prod_unfold)
  have vals: "map snd ?cs = map ?g (map snd final_values)"
    by (simp add: comp_def case_prod_unfold)
  have "nansum_rounded rnd (map snd ?cs) = Fin 100" if exact: "\<forall>x. rnd x = Fin x"
  proof -
    from exact have rnd: "rnd = Fin" by (intro ext) simp
    let ?f = "\<lambda>v. fmul (fdiv v (Fin T)) (Fin 100)"
    have vals': "map snd ?cs = map ?f (map snd final_values)"
      unfolding vals rnd by (simp add: rounded_exact comp_def case_prod_unfold)
    from total have "nansum (map snd final_values) = Fin T"
      by (simp add: rnd nansum_rounded_exact)
    from nansum_finite[OF this] obtain rs where
      rs: "present (map snd final_values) = map Fin rs" and T: "T = sum_list rs" by blast
    have "present (map snd ?cs) = map ?f (map Fin rs)"
      unfolding vals' present_map_contribution[OF nz] rs ..
    also have "\<dots> = map Fin (map (\<lambda>r. r / T * 100) rs)"
      using nz by simp
    finally have eq: "present (map snd ?cs) = map Fin (map (\<lambda>r. r / T * 100) rs)" .
    have "nansum (map snd ?cs) = Fin (0 + sum_list (map (\<lambda>r. r / T * 100) rs))"
      unfolding nansum_def eq by (rule foldl_fadd_Fin)
    moreover have "sum_list (map (\<lambda>r. r / T * 100) rs) = sum_list rs / T * 100"
      by (induction rs) (auto simp: algebra_simps add_divide_distrib)
    ultimately have "nansum (map snd ?cs) = Fin 100"
      using T nz by simp
    then show ?thesis by (simp add: rnd nansum_rounded_exact)
  qed
  with res names vals show ?thesis by blast
qed

lemma round_double_one: "round_double 1 = Fin 1"
  using round_double_normal[of 1 0] by (simp add: round_half_even_def)

lemma round_double_two: "round_double 2 = Fin 2"
  using round_double_normal[of 2 1] by (simp add: round_half_even_def)

lemma round_double_three: "round_double 3 = Fin 3"
  using round_double_normal[of 3 1] by (simp add: round_half_even_def)

lemma round_double_third: "round_double (1 / 3) = Fin (6004799503160661 / 18014398509481984)"
  using round_double_normal[of "1 / 3" "- 2"] by (simp add: round_half_even_def)

lemma round_double_percentage:
  "round_double (6004799503160661 / 18014398509481984 * 100)
     = Fin (4691249611844266 / 140737488355328)"
  using round_double_normal[of "6004799503160661 / 18014398509481984 * 100" 5]
  by (simp add: round_half_even_def)

lemma round_double_percentage_exact:
  "round_double (4691249611844266 / 140737488355328) = Fin (4691249611844266 / 140737488355328)"
  using round_double_normal[of "4691249611844266 / 140737488355328" 5]
  by (simp add: round_half_even_def)

lemma round_double_two_percentages:
  "round_double (4691249611844266 / 140737488355328 + 4691249611844266 / 140737488355328)
     = Fin (4691249611844266 / 70368744177664)"
  using round_double_normal[of "4691249611844266 / 140737488355328 + 4691249611844266 / 140737488355328" 6]
  by (simp add: round_half_even_def)

lemma round_double_three_percentages:
  "round_double (4691249611844266 / 70368744177664 + 4691249611844266 / 140737488355328)
     = Fin (7036874417766399 / 70368744177664)"
  using round_double_normal[of "4691249611844266 / 70368744177664 + 4691249611844266 / 140737488355328" 6]
  by (simp add: round_half_even_def)

text \<open>
  C10 as stated fails on doubles: three equal final prices are each
  \<open>33.33333333333333\<close> percent, and these sum to \<open>99.99999999999999\<close>, not to 100.
\<close>

theorem regional_contribution_rounding_counterexample:
  "calculate_regional_contribution round_double
       \<lparr>region_prices = \<lparr>index = [736695],
          columns = [(''US Market'', [Fin 1]), (''Europe'', [Fin 1]), (''Emerging Markets'', [Fin 1])]\<rparr>,
        region_returns = \<lparr>index = [], columns = []\<rparr>\<rparr>
     = Inr [(''US Market'', Fin (4691249611844266 / 140737488355328)),
            (''Europe'', Fin (4691249611844266 / 140737488355328)),
            (''Emerging Markets'', Fin (4691249611844266 / 140737488355328))]
   \<and> nansum_rounded round_double
         [Fin (4691249611844266 / 140737488355328), Fin (4691249611844266 / 140737488355328),
          Fin (4691249611844266 / 140737488355328)]
       = Fin (7036874417766399 / 70368744177664)
   \<and> Fin (7036874417766399 / 70368744177664) \<noteq> Fin 100"
proof -
  have total: "nansum_rounded round_double [Fin 1, Fin 1, Fin 1] = Fin 3"
    using round_double_one round_double_two round_double_three
    by (simp add: nansum_rounded_def present_def rounded_def)
  have cell: "rounded round_double (fmul (rounded round_double (fdiv (Fin 1) (Fin 3))) (Fin 100))
                = Fin (4691249611844266 / 140737488355328)"
    using round_double_third round_double_percentage
    by (simp add: rounded_def)
  have a: "calculate_regional_contribution round_double
       \<lparr>region_prices = \<lparr>index = [736695],
          columns = [(''US Market'', [Fin 1]), (''Europe'', [Fin 1]), (''Emerging Markets'', [Fin 1])]\<rparr>,
        region_returns = \<lparr>index = [], columns = []\<rparr>\<rparr>
     = Inr [(''US Market'', Fin (4691249611844266 / 140737488355328)),
            (''Europe'', Fin (4691249611844266 / 140737488355328)),
            (''Emerging Markets'', Fin (4691249611844266 / 140737488355328))]"
    using total cell by (simp add: calculate_regional_contribution_def iloc_last_def)
  have b: "nansum_rounded round_double
         [Fin (4691249611844266 / 140737488355328), Fin (4691249611844266 / 140737488355328),
          Fin (4691249611844266 / 140737488355328)]
       = Fin (7036874417766399 / 70368744177664)"
    using round_double_percentage_exact round_double_two_percentages round_double_three_percentages
    by (simp add: nansum_rounded_def present_def rounded_def)
  have c: "Fin (7036874417766399 / 70368744177664) \<noteq> Fin 100" by simp
  from a b c show ?thesis by (intro conjI)
qed

text \<open>
  C10, witness: in exact arithmetic the final prices 1, 2 and 1 are 25, 50 and 25
  percent, which sum to 100.
\<close>

theorem regional_contribution_percentages_witness:
  "iloc_last \<lparr>index = [736695, 736696],
       columns = [(''US Market'', [Fin 10, Fin 1]), (''Europe'', [Fin 20, Fin 2]),
                  (''Emerging Markets'', [Fin 5, Fin 1])]\<rparr>
     = Inr [(''US Market'', Fin 1), (''Europe'', Fin 2), (''Emerging Markets'', Fin 1)]
   \<and> nansum_rounded Fin [Fin 1, Fin 2, Fin 1] = Fin 4
   \<and> calculate_regional_contribution Fin
       \<lparr>region_prices = \<lparr>index = [736695, 736696],
          columns = [(''US Market'', [Fin 10, Fin 1]), (''Europe'', [Fin 20, Fin 2]),
                     (''Emerging Markets'', [Fin 5, Fin 1])]\<rparr>,
        region_returns = \<lparr>index = [], columns = []\<rparr>\<rparr>
     = Inr [(''US Market'', Fin 25), (''Europe'', Fin 50), (''Emerging Markets'', Fin 25)]
   \<and> nansum_rounded Fin [Fin 25, Fin 50, Fin 25] = Fin 100"
  using regional_contribution_percentages[of
       "\<lparr>region_prices = \<lparr>index = [736695, 736696],
          columns = [(''US Market'', [Fin 10, Fin 1]), (''Europe'', [Fin 20, Fin 2]),
                     (''Emerging Markets'', [Fin 5, Fin 1])]\<rparr>,
        region_returns = \<lparr>index = [], columns = []\<rparr>\<rparr>"
       "[(''US Market'', Fin 1), (''Europe'', Fin 2), (''Emerging Markets'', Fin 1)]" Fin 4]
  by (simp add: iloc_last_def nansum_rounded_def present_def rounded_def
      calculate_regional_contribution_def)

section \<open>Rolling metrics\<close>

lemma rolling_nonneg: "0 \<le> window \<Longrightarrow> \<exists>t. rolling window f df = Inr t"
  by (simp add: rolling_def)

lemma rolling_error:
  "rolling window f df = Inl e \<Longrightarrow> e = ValueError ''window must be an integer 0 or greater''"
  by (auto simp: rolling_def split: if_splits)

text \<open>
  C4, as amended. \<open>get_rolling_metrics\<close> raises the invalid-metric error (the
  \<open>ValueError\<close> "Unknown metric") if and only if the metric is outside volatility,
  return and sharpe; for those three values and a window that is not negative it returns
  a rolling table without raising.
\<close>

theorem rolling_metrics_invalid_metric:
  "(get_rolling_metrics self window metric = Inl (ValueError (''Unknown metric: '' @ metric))
      \<longleftrightarrow> metric \<notin> {''volatility'', ''return'', ''sharpe''})
   \<and> (metric \<in> {''volatility'', ''return'', ''sharpe''} \<and> 0 \<le> window
        \<longrightarrow> (\<exists>table. get_rolling_metrics self window metric = Inr table))"
proof (intro conjI impI)
  show "get_rolling_metrics self window metric = Inl (ValueError (''Unknown metric: '' @ metric))
      \<longleftrightarrow> metric \<notin> {''volatility'', ''return'', ''sharpe''}"
    by (auto simp: get_rolling_metrics_def rolling_def Let_def split: sum.splits)
next
  assume "metric \<in> {''volatility'', ''return'', ''sharpe''} \<and> 0 \<le> window"
  then show "\<exists>table. get_rolling_metrics self window metric = Inr table"
    by (auto simp: get_rolling_metrics_def rolling_def Let_def)
qed

text \<open>
  C4, witness: the metric "unknown" is refused, and the rolling return over two dates of
  the returns 1, 2 and 6 is a table.
\<close>

theorem rolling_metrics_invalid_metric_witness:
  "get_rolling_metrics (init_PerformanceAnalyzer
       \<lparr>index = [736695, 736696, 736697], columns = [(''Value'', [Fin 1, Fin 2, Fin 6])]\<rparr>)
       2 ''unknown'' = Inl (ValueError ''Unknown metric: unknown'')
   \<and> get_rolling_metrics (init_PerformanceAnalyzer
       \<lparr>index = [736695, 736696, 736697], columns = [(''Value'', [Fin 1, Fin 2, Fin 6])]\<rparr>)
       2 ''return''
     = Inr \<lparr>index = [736695, 736696, 736697],
            columns = [(''Value'', [NaN, Fin 378, Fin 1008])]\<rparr>"
  using rolling_metrics_invalid_metric[of "init_PerformanceAnalyzer
       \<lparr>index = [736695, 736696, 736697], columns = [(''Value'', [Fin 1, Fin 2, Fin 6])]\<rparr>"
       2 "''unknown''"]
    rolling_metrics_invalid_metric[of "init_PerformanceAnalyzer
       \<lparr>index = [736695, 736696, 736697], columns = [(''Value'', [Fin 1, Fin 2, Fin 6])]\<rparr>"
       2 "''return''"]
  by (simp add: get_rolling_metrics_def rolling_def init_PerformanceAnalyzer_def map_columns_def
      rolling_apply_def rolling_windows_def prep_values_def present_def nanmean_def mean_def
      upt_rec)

text \<open>
  C4 as stated fails: with the metric "volatility" and the window -1 the call raises,
  since pandas refuses a negative window when the roller is built.
\<close>

theorem rolling_metrics_negative_window_counterexample:
  "get_rolling_metrics (init_PerformanceAnalyzer
       \<lparr>index = [736695, 736696, 736697], columns = [(''Value'', [Fin 1, Fin 2, Fin 6])]\<rparr>)
       (- 1) ''volatility''
     = Inl (ValueError ''window must be an integer 0 or greater'')"
  by (simp add: get_rolling_metrics_def rolling_def)

section \<open>Sharpe ratio at zero volatility\<close>

lemma fmul_Fin_zero:
  "fmul a b = Fin 0 \<Longrightarrow> \<exists>x y. a = Fin x \<and> b = Fin y \<and> x * y = 0"
  by (cases a; cases b) (auto simp: inf_of_def split: if_splits)

lemma nanstd_finite_length: "nanstd xs = Fin s \<Longrightarrow> 2 \<le> length xs"
proof -
  assume "nanstd xs = Fin s"
  then have "2 \<le> length (present xs)"
    by (auto simp: nanstd_def Let_def split: if_splits)
  moreover have "length (present xs) \<le> length xs"
    by (simp add: present_def)
  ultimately show ?thesis by linarith
qed

lemma fdiv_zero_not_finite: "\<not> isfinite (fdiv a (Fin 0))"
  by (cases a) (auto simp: inf_of_def)

lemma fdiv_zero_isnan: "isnan (fdiv a (Fin 0)) \<longleftrightarrow> isnan a \<or> a = Fin 0"
  by (cases a) (auto simp: inf_of_def)

lemma fdiv_zero_cases:
  "fdiv a (Fin 0) = (case a of Fin x \<Rightarrow> (if x = 0 then NaN else if 0 < x then PInf else NInf)
                      | PInf \<Rightarrow> PInf | NInf \<Rightarrow> NInf | NaN \<Rightarrow> NaN)"
  by (cases a) (auto simp: inf_of_def)

text \<open>
  C3, as amended. For every return table in which the annualized volatility of an asset
  is zero, and a number of trading days that is not zero, \<open>calculate_sharpe_ratio\<close>
  does not raise, and its value for that asset is the excess return divided by zero: a
  value that is not finite, which is \<open>nan\<close> when the excess return is zero or
  \<open>nan\<close>, and otherwise the infinity of the excess return's sign.
\<close>

theorem sharpe_zero_volatility:
  assumes wf: "well_formed (returns self)"
    and j: "j < length (columns (returns self))"
    and vol: "snd (calculate_annualized_volatility self trading_days ! j) = Fin 0"
    and td: "trading_days \<noteq> 0"
  shows "\<exists>ann_return sharpe.
           calculate_annualized_return self trading_days = Inr ann_return
           \<and> calculate_sharpe_ratio self risk_free_rate trading_days = Inr sharpe
           \<and> j < length sharpe
           \<and> fst (sharpe ! j) = fst (columns (returns self) ! j)
           \<and> snd (sharpe ! j)
               = fdiv (fsub (snd (ann_return ! j)) (Fin risk_free_rate)) (Fin 0)
           \<and> \<not> isfinite (snd (sharpe ! j))
           \<and> (isnan (snd (sharpe ! j))
                \<longleftrightarrow> isnan (fsub (snd (ann_return ! j)) (Fin risk_free_rate))
                    \<or> fsub (snd (ann_return ! j)) (Fin risk_free_rate) = Fin 0)"
proof -
  obtain c xs where col: "columns (returns self) ! j = (c, xs)"
    by (cases "columns (returns self) ! j")
  have volj: "calculate_annualized_volatility self trading_days ! j
               = (c, fmul (nanstd xs) (fsqrt (real_of_int trading_days)))"
    using j col by (simp add: calculate_annualized_volatility_def)
  with vol have "fmul (nanstd xs) (fsqrt (real_of_int trading_days)) = Fin 0" by simp
  from fmul_Fin_zero[OF this] obtain s where s: "nanstd xs = Fin s" by blast
  have "(c, xs) \<in> set (columns (returns self))"
    using j col by (metis nth_mem)
  with wf have "length xs = length (index (returns self))"
    by (auto simp: well_formed_def list_all_iff)
  with nanstd_finite_length[OF s] have rows: "nrows (returns self) \<noteq> 0"
    unfolding nrows_def by linarith
  let ?years = "real (nrows (returns self)) / real_of_int trading_days"
  have years: "?years \<noteq> 0" using rows td by simp
  let ?ann = "map (\<lambda>(c, t). (c, fsub (fpow (fadd (Fin 1) t) (1 / ?years)) (Fin 1)))
                (map (\<lambda>(c, xs). (c, fsub (nanprod (map (fadd (Fin 1)) xs)) (Fin 1)))
                   (columns (returns self)))"
  have ann: "calculate_annualized_return self trading_days = Inr ?ann"
    using td years by (simp add: calculate_annualized_return_def Let_def)
  let ?vol = "calculate_annualized_volatility self trading_days"
  let ?sharpe = "map2 (\<lambda>(c, r) (c', v). (c, fdiv (fsub r (Fin risk_free_rate)) v)) ?ann ?vol"
  have sharpe: "calculate_sharpe_ratio self risk_free_rate trading_days = Inr ?sharpe"
    by (simp add: calculate_sharpe_ratio_def ann Let_def del: fpow.simps)
  have lv: "length ?vol = length (columns (returns self))"
    by (simp add: calculate_annualized_volatility_def)
  have la: "length ?ann = length (columns (returns self))" by simp
  have jl: "j < length ?sharpe" using j lv la by simp
  obtain r where annj: "?ann ! j = (c, r)"
    using j col by (simp add: case_prod_unfold del: fpow.simps)
  have "?sharpe ! j = (c, fdiv (fsub r (Fin risk_free_rate)) (Fin 0))"
    using jl j lv la annj volj vol by (simp del: fpow.simps)
  then have "fst (?sharpe ! j) = fst (columns (returns self) ! j)"
    and "snd (?sharpe ! j) = fdiv (fsub (snd (?ann ! j)) (Fin risk_free_rate)) (Fin 0)"
    and "\<not> isfinite (snd (?sharpe ! j))"
    and "isnan (snd (?sharpe ! j))
           \<longleftrightarrow> isnan (fsub (snd (?ann ! j)) (Fin risk_free_rate))
               \<or> fsub (snd (?ann ! j)) (Fin risk_free_rate) = Fin 0"
    using col annj fdiv_zero_not_finite fdiv_zero_isnan by simp_all
  with ann sharpe jl show ?thesis by blast
qed

text \<open>
  C3 as stated fails: three returns of zero have the annualized volatility zero and the
  annualized return zero, so with the risk-free rate 0.02 the Sharpe ratio is
  \<open>-0.02 / 0\<close>, which is \<open>-inf\<close> and not \<open>nan\<close>.
\<close>

theorem sharpe_zero_volatility_counterexample:
  "calculate_annualized_volatility (init_PerformanceAnalyzer
      \<lparr>index = [736695, 736696, 736697], columns = [(''Value'', [Fin 0, Fin 0, Fin 0])]\<rparr>) 252
     = [(''Value'', Fin 0)]
   \<and> calculate_sharpe_ratio (init_PerformanceAnalyzer
      \<lparr>index = [736695, 736696, 736697], columns = [(''Value'', [Fin 0, Fin 0, Fin 0])]\<rparr>)
      (2 / 100) 252
     = Inr [(''Value'', NInf)]
   \<and> \<not> isnan NInf"
  by (simp add: calculate_annualized_volatility_def calculate_sharpe_ratio_def
      calculate_annualized_return_def init_PerformanceAnalyzer_def nanstd_def present_def
      sum_sq_dev_def mean_def fsqrt_def nanprod_def nrows_def fsub_def inf_of_def Let_def)

text \<open>C3, witness: the same table of three zero returns.\<close>

theorem sharpe_zero_volatility_witness:
  "well_formed (returns (init_PerformanceAnalyzer
      \<lparr>index = [736695, 736696, 736697], columns = [(''Value'', [Fin 0, Fin 0, Fin 0])]\<rparr>))
   \<and> snd (calculate_annualized_volatility (init_PerformanceAnalyzer
      \<lparr>index = [736695, 736696, 736697], columns = [(''Value'', [Fin 0, Fin 0, Fin 0])]\<rparr>) 252 ! 0)
       = Fin 0
   \<and> (\<exists>sharpe. calculate_sharpe_ratio (init_PerformanceAnalyzer
      \<lparr>index = [736695, 736696, 736697], columns = [(''Value'', [Fin 0, Fin 0, Fin 0])]\<rparr>)
         (2 / 100) 252 = Inr sharpe
       \<and> \<not> isfinite (snd (sharpe ! 0)))"
proof -
  let ?pa = "init_PerformanceAnalyzer
      \<lparr>index = [736695, 736696, 736697], columns = [(''Value'', [Fin 0, Fin 0, Fin 0])]\<rparr>"
  have wf: "well_formed (returns ?pa)"
    by (simp add: init_PerformanceAnalyzer_def well_formed_def)
  have j: "0 < length (columns (returns ?pa))"
    by (simp add: init_PerformanceAnalyzer_def)
  have vol: "snd (calculate_annualized_volatility ?pa 252 ! 0) = Fin 0"
    by (simp add: calculate_annualized_volatility_def init_PerformanceAnalyzer_def nanstd_def
        present_def sum_sq_dev_def mean_def fsqrt_def)
  have td: "(252::int) \<noteq> 0" by simp
  from sharpe_zero_volatility[OF wf j vol td, of "2 / 100"] obtain sharpe where
    "calculate_sharpe_ratio ?pa (2 / 100) 252 = Inr sharpe" "\<not> isfinite (snd (sharpe ! 0))"
    by blast
  with wf vol show ?thesis by blast
qed

section \<open>Diversification ratio\<close>

lemma fmul_commute: "fmul a b = fmul b a"
  by (cases a; cases b) (auto simp: inf_of_def)

lemma fmul_fadd_distrib:
  "0 < w \<Longrightarrow> fmul (fadd a b) (Fin w) = fadd (fmul a (Fin w)) (fmul b (Fin w))"
  by (cases a; cases b) (auto simp: inf_of_def algebra_simps)

lemma foldl_fadd_scale:
  "0 < w \<Longrightarrow> foldl fadd (fmul a (Fin w)) (map (\<lambda>x. fmul x (Fin w)) xs)
                = fmul (foldl fadd a xs) (Fin w)"
proof (induction xs arbitrary: a)
  case Nil
  show ?case by simp
next
  case (Cons x xs)
  from Cons.IH[OF Cons.prems, of "fadd a x"] show ?case
    by (simp add: fmul_fadd_distrib[OF Cons.prems])
qed

lemma fsum_scale: "0 < w \<Longrightarrow> fsum (map (\<lambda>x. fmul x (Fin w)) xs) = fmul (fsum xs) (Fin w)"
  using foldl_fadd_scale[of w "Fin 0" xs] by (simp add: fsum_def)

lemma fdiv_as_fmul: "0 < k \<Longrightarrow> fdiv a (Fin k) = fmul a (Fin (1 / k))"
  by (cases a) (auto simp: inf_of_def)

lemma fmul_scalars_swap:
  "0 < c \<Longrightarrow> 0 < w \<Longrightarrow> fmul (fmul a (Fin c)) (Fin w) = fmul (fmul a (Fin w)) (Fin c)"
  by (cases a) (auto simp: inf_of_def)

lemma fdiv_cancel_scale:
  "0 < c \<Longrightarrow> fdiv (fmul a (Fin c)) (fmul b (Fin c)) = fdiv a b"
  by (cases a; cases b) (auto simp: inf_of_def zero_less_mult_iff mult_less_0_iff zero_le_mult_iff)

lemma map2_replicate_right:
  "length xs = k \<Longrightarrow> map2 f xs (replicate k w) = map (\<lambda>x. f x w) xs"
  by (induction xs arbitrary: k) auto

lemma map2_replicate_left:
  "length ys = k \<Longrightarrow> map2 f (replicate k w) ys = map (f w) ys"
  by (induction ys arbitrary: k) auto

lemma present_scaled:
  assumes "0 < w" and "list_all (\<lambda>x. \<not> isnan x) vs"
  shows "present (map (\<lambda>x. fmul x (Fin w)) vs) = map (\<lambda>x. fmul x (Fin w)) vs"
  using assms(2)
proof (induction vs)
  case Nil
  show ?case by (simp add: present_def)
next
  case (Cons v vs)
  from Cons.prems have "\<not> isnan (fmul v (Fin w))"
    using assms(1) by (cases v) (auto simp: inf_of_def)
  with Cons show ?case by (simp add: present_def)
qed

lemma weighted_row_sums_average:
  assumes rt: "return_table df" and k: "columns df \<noteq> []"
  shows "weighted_row_sums (replicate (length (columns df)) (1 / real (length (columns df)))) df
           = equal_weighted_portfolio df"
proof -
  let ?k = "length (columns df)"
  let ?w = "1 / real ?k"
  have w: "0 < ?w" and kpos: "0 < real ?k" using k by simp_all
  have row: "nansum (map2 (\<lambda>(c, xs) w. fmul (xs ! i) (Fin w)) (columns df) (replicate ?k ?w))
               = average (map (\<lambda>(c, xs). xs ! i) (columns df))"
    if i: "i < nrows df" for i
  proof -
    let ?vs = "map (\<lambda>(c, xs). xs ! i) (columns df)"
    have cells: "list_all (\<lambda>x. \<not> isnan x) ?vs"
      unfolding list_all_iff
    proof
      fix v assume "v \<in> set ?vs"
      then obtain c xs where mem: "(c, xs) \<in> set (columns df)" and v: "v = xs ! i"
        by auto
      from mem rt have "length xs = length (index df)" and nn: "\<forall>x\<in>set xs. \<not> isnan x"
        by (auto simp: return_table_def well_formed_def list_all_iff)
      with i have "xs ! i \<in> set xs" by (simp add: nrows_def)
      with nn v show "\<not> isnan v" by simp
    qed
    have "map2 (\<lambda>(c, xs) w. fmul (xs ! i) (Fin w)) (columns df) (replicate ?k ?w)
            = map (\<lambda>x. (\<lambda>(c, xs) w. fmul (xs ! i) (Fin w)) x ?w) (columns df)"
      by (rule map2_replicate_right) simp
    also have "\<dots> = map (\<lambda>x. fmul x (Fin ?w)) ?vs"
      by (simp add: comp_def case_prod_unfold)
    finally have "nansum (map2 (\<lambda>(c, xs) w. fmul (xs ! i) (Fin w)) (columns df) (replicate ?k ?w))
            = fsum (map (\<lambda>x. fmul x (Fin ?w)) ?vs)"
      using present_scaled[OF w cells] by (simp add: nansum_def fsum_def)
    also have "\<dots> = fmul (fsum ?vs) (Fin ?w)" by (rule fsum_scale[OF w])
    also have "\<dots> = average ?vs"
      using fdiv_as_fmul[OF kpos, of "fsum ?vs"] by (simp add: average_def)
    finally show ?thesis .
  qed
  show ?thesis
    unfolding weighted_row_sums_def equal_weighted_portfolio_def
    using row by simp
qed

text \<open>
  C9. For every return table with at least two rows and a portfolio volatility that is
  not zero, \<open>calculate_diversification_ratio\<close>, which works on daily standard
  deviations, equals the specification's formula on annualized volatilities: the
  annualization factor cancels.
\<close>

theorem diversification_ratio_matches_spec:
  assumes rt: "return_table (region_returns self)"
    and rows: "2 \<le> nrows (region_returns self)"
    and vol: "nanstd (weighted_row_sums
                 (replicate (length (columns (region_returns self)))
                    (1 / real (length (columns (region_returns self)))))
                 (region_returns self)) \<noteq> Fin 0"
  shows "calculate_diversification_ratio self = Inr (spec_diversification_ratio self)"
proof -
  let ?df = "region_returns self"
  let ?k = "length (columns ?df)"
  let ?w = "1 / real ?k"
  let ?c = "sqrt 252"
  have k: "columns ?df \<noteq> []"
  proof
    assume e: "columns ?df = []"
    have "weighted_row_sums (replicate ?k ?w) ?df = map Fin (replicate (nrows ?df) 0)"
      by (simp add: weighted_row_sums_def e nansum_def present_def map_replicate_const)
    moreover have "present (map Fin (replicate (nrows ?df) 0)) = map Fin (replicate (nrows ?df) 0)"
      by (simp add: present_def)
    moreover have "sum_sq_dev (replicate (nrows ?df) 0) = 0"
      by (simp add: sum_sq_dev_def mean_def sum_list_replicate)
    ultimately have "nanstd (weighted_row_sums (replicate ?k ?w) ?df) = Fin 0"
      using rows by (simp add: nanstd_def list_all_iff comp_def)
    with vol show False by simp
  qed
  then have kpos: "0 < real ?k" and w: "0 < ?w" by simp_all
  have c: "0 < ?c" by simp
  have sq: "fsqrt 252 = Fin ?c" by (simp add: fsqrt_def)
  let ?vols = "map (\<lambda>(c, xs). nanstd xs) (columns ?df)"
  let ?P = "nanstd (weighted_row_sums (replicate ?k ?w) ?df)"
  let ?W = "np_dot (replicate ?k ?w) ?vols"
  have code: "calculate_diversification_ratio self = Inr (fdiv ?W ?P)"
    using k by (simp add: calculate_diversification_ratio_def Let_def)
  have W: "?W = fmul (fsum ?vols) (Fin ?w)"
  proof -
    have sw: "fmul (Fin ?w) = (\<lambda>v. fmul v (Fin ?w))"
      by (rule ext) (rule fmul_commute)
    have "map2 (\<lambda>w v. fmul (Fin w) v) (replicate ?k ?w) ?vols = map (fmul (Fin ?w)) ?vols"
      by (rule map2_replicate_left) simp
    then have "?W = fsum (map (\<lambda>v. fmul v (Fin ?w)) ?vols)"
      unfolding np_dot_def sw by simp
    then show ?thesis by (simp only: fsum_scale[OF w])
  qed
  have ann: "map snd (calculate_regional_volatility self 252) = map (\<lambda>v. fmul v (Fin ?c)) ?vols"
    by (simp add: calculate_regional_volatility_def sq comp_def case_prod_unfold)
  have "average (map snd (calculate_regional_volatility self 252))
          = fmul (fmul (fsum ?vols) (Fin ?c)) (Fin ?w)"
    unfolding ann average_def
    by (simp only: fsum_scale[OF c] fdiv_as_fmul[OF kpos] length_map)
  also have "\<dots> = fmul ?W (Fin ?c)"
    unfolding W by (rule fmul_scalars_swap[OF c w])
  finally have num: "average (map snd (calculate_regional_volatility self 252)) = fmul ?W (Fin ?c)" .
  have "spec_diversification_ratio self = fdiv (fmul ?W (Fin ?c)) (fmul ?P (Fin ?c))"
    unfolding spec_diversification_ratio_def num sq
    using weighted_row_sums_average[OF rt k] by simp
  also have "\<dots> = fdiv ?W ?P" by (rule fdiv_cancel_scale[OF c])
  finally show ?thesis using code by simp
qed

text \<open>
  C9, witness: two assets over two dates, one moving and one flat.
\<close>

theorem diversification_ratio_matches_spec_witness:
  "return_table \<lparr>index = [736695, 736696],
       columns = [(''US Market'', [Fin 0, Fin 2]), (''Europe'', [Fin 0, Fin 0])]\<rparr>
   \<and> weighted_row_sums [1 / 2, 1 / 2] \<lparr>index = [736695, 736696],
       columns = [(''US Market'', [Fin 0, Fin 2]), (''Europe'', [Fin 0, Fin 0])]\<rparr>
       = [Fin 0, Fin 1]
   \<and> nanstd [Fin 0, Fin 1] \<noteq> Fin 0
   \<and> calculate_diversification_ratio
       \<lparr>region_prices = \<lparr>index = [], columns = []\<rparr>,
        region_returns = \<lparr>index = [736695, 736696],
          columns = [(''US Market'', [Fin 0, Fin 2]), (''Europe'', [Fin 0, Fin 0])]\<rparr>\<rparr>
     = Inr (spec_diversification_ratio
       \<lparr>region_prices = \<lparr>index = [], columns = []\<rparr>,
        region_returns = \<lparr>index = [736695, 736696],
          columns = [(''US Market'', [Fin 0, Fin 2]), (''Europe'', [Fin 0, Fin 0])]\<rparr>\<rparr>)"
proof -
  let ?df = "\<lparr>index = [736695, 736696],
       columns = [(''US Market'', [Fin 0, Fin 2]), (''Europe'', [Fin 0, Fin 0])]\<rparr>"
  let ?ga = "\<lparr>region_prices = \<lparr>index = [], columns = []\<rparr>, region_returns = ?df\<rparr>"
  have rt: "return_table ?df"
    by (simp add: return_table_def well_formed_def)
  have ws: "weighted_row_sums [1 / 2, 1 / 2] ?df = [Fin 0, Fin 1]"
    by (simp add: weighted_row_sums_def nrows_def nansum_def present_def upt_rec)
  have sd: "nanstd [Fin 0, Fin 1] \<noteq> Fin 0"
    by (simp add: nanstd_def present_def sum_sq_dev_def mean_def power2_eq_square)
  have "calculate_diversification_ratio ?ga = Inr (spec_diversification_ratio ?ga)"
    using diversification_ratio_matches_spec[of ?ga] rt ws sd
    by (simp add: nrows_def)
  with rt ws sd show ?thesis by blast
qed

section \<open>Correlation matrix\<close>

lemma cauchy_schwarz_step:
  fixes S A B a b :: real
  assumes S: "S\<^sup>2 \<le> A * B" and A: "0 \<le> A" and B: "0 \<le> B"
  shows "(S + a * b)\<^sup>2 \<le> (A + a\<^sup>2) * (B + b\<^sup>2)"
proof -
  have "(2 * a * b * S)\<^sup>2 = 4 * (a\<^sup>2 * b\<^sup>2) * S\<^sup>2"
    by (simp add: power2_eq_square)
  also have "\<dots> \<le> 4 * (a\<^sup>2 * b\<^sup>2) * (A * B)"
    using S by (intro mult_left_mono) simp_all
  also have "\<dots> \<le> 4 * (a\<^sup>2 * b\<^sup>2) * (A * B) + (A * b\<^sup>2 - a\<^sup>2 * B)\<^sup>2"
    by simp
  also have "\<dots> = (A * b\<^sup>2 + a\<^sup>2 * B)\<^sup>2"
    by (simp add: power2_eq_square algebra_simps)
  finally have "(2 * a * b * S)\<^sup>2 \<le> (A * b\<^sup>2 + a\<^sup>2 * B)\<^sup>2" .
  moreover have "0 \<le> A * b\<^sup>2 + a\<^sup>2 * B" using A B by simp
  ultimately have "2 * a * b * S \<le> A * b\<^sup>2 + a\<^sup>2 * B"
    by (rule power2_le_imp_le)
  moreover have "(S + a * b)\<^sup>2 = S\<^sup>2 + 2 * a * b * S + a\<^sup>2 * b\<^sup>2"
    by (simp add: power2_eq_square algebra_simps)
  moreover have "(A + a\<^sup>2) * (B + b\<^sup>2) = A * B + (A * b\<^sup>2 + a\<^sup>2 * B) + a\<^sup>2 * b\<^sup>2"
    by (simp add: algebra_simps)
  ultimately show ?thesis using S by linarith
qed

lemma cauchy_schwarz_pairs:
  fixes ps :: "(real \<times> real) list"
  shows "(\<Sum>(a, b)\<leftarrow>ps. a * b)\<^sup>2 \<le> (\<Sum>(a, b)\<leftarrow>ps. a\<^sup>2) * (\<Sum>(a, b)\<leftarrow>ps. b\<^sup>2)"
proof (induction ps)
  case Nil
  show ?case by simp
next
  case (Cons p ps)
  obtain a b where p: "p = (a, b)" by (cases p)
  have A: "0 \<le> (\<Sum>(a, b)\<leftarrow>ps. a\<^sup>2)" by (rule sum_list_nonneg) auto
  have B: "0 \<le> (\<Sum>(a, b)\<leftarrow>ps. b\<^sup>2)" by (rule sum_list_nonneg) auto
  from cauchy_schwarz_step[OF Cons.IH A B, of a b] show ?case
    by (simp add: p algebra_simps)
qed

lemma sum_co_dev_commute: "sum_co_dev ss rs = sum_co_dev rs ss"
proof -
  have "zip ss rs = map (\<lambda>(r, s). (s, r)) (zip rs ss)" by (rule zip_commute)
  then show ?thesis
    by (simp add: sum_co_dev_def comp_def case_prod_unfold mult.commute)
qed

lemma corr_pair_commute: "corr_pair ys xs = corr_pair xs ys"
proof -
  let ?P = "\<lambda>(x, y). isfinite x \<and> isfinite y"
  let ?ps = "filter ?P (zip xs ys)"
  have z: "zip ys xs = map (\<lambda>(x, y). (y, x)) (zip xs ys)" by (rule zip_commute)
  have qs: "filter ?P (zip ys xs) = map (\<lambda>(x, y). (y, x)) ?ps"
    unfolding z by (simp add: filter_map comp_def case_prod_unfold conj_commute)
  have f: "map (the_real \<circ> fst) (map (\<lambda>(x, y). (y, x)) ?ps) = map (the_real \<circ> snd) ?ps"
    and s: "map (the_real \<circ> snd) (map (\<lambda>(x, y). (y, x)) ?ps) = map (the_real \<circ> fst) ?ps"
    by (simp_all add: comp_def case_prod_unfold)
  show ?thesis
    unfolding corr_pair_def qs Let_def f s
    by (simp add: mult.commute sum_co_dev_commute)
qed

lemma finite_column: "list_all isfinite xs \<Longrightarrow> xs = map Fin (map the_real xs)"
proof (induction xs)
  case Nil
  show ?case by simp
next
  case (Cons x xs)
  then show ?case by (cases x) auto
qed

lemma corr_pair_finite:
  assumes len: "length rs = length ss" and ne: "rs \<noteq> []"
  shows "corr_pair (map Fin rs) (map Fin ss)
           = (if sqrt (sum_sq_dev rs * sum_sq_dev ss) \<noteq> 0
              then Fin (sum_co_dev rs ss / sqrt (sum_sq_dev rs * sum_sq_dev ss)) else NaN)"
proof -
  let ?z = "zip (map Fin rs) (map Fin ss)"
  have filt: "filter (\<lambda>(x, y). isfinite x \<and> isfinite y) ?z = ?z"
    using len by (induction rs ss rule: list_induct2) auto
  have r: "map (the_real \<circ> fst) ?z = rs" and s: "map (the_real \<circ> snd) ?z = ss"
    using len by (induction rs ss rule: list_induct2) auto
  have z: "?z \<noteq> []" using len ne by (cases rs; cases ss) auto
  show ?thesis
    unfolding corr_pair_def filt Let_def r s using z by simp
qed

lemma sum_sq_dev_nonneg: "0 \<le> sum_sq_dev rs"
  unfolding sum_sq_dev_def by (rule sum_list_nonneg) auto

lemma sum_co_dev_same: "sum_co_dev rs rs = sum_sq_dev rs"
proof -
  have "(\<Sum>(r, s)\<leftarrow>zip xs xs. (r - m) * (s - m)) = (\<Sum>r\<leftarrow>xs. (r - m)\<^sup>2)" for xs :: "real list" and m
    by (induction xs) (auto simp: power2_eq_square)
  then show ?thesis by (simp add: sum_co_dev_def sum_sq_dev_def)
qed

lemma sum_co_dev_bound:
  assumes len: "length rs = length ss"
  shows "(sum_co_dev rs ss)\<^sup>2 \<le> sum_sq_dev rs * sum_sq_dev ss"
proof -
  let ?ps = "map (\<lambda>(r, s). (r - mean rs, s - mean ss)) (zip rs ss)"
  have a: "(\<Sum>(a, b)\<leftarrow>map (\<lambda>(r, s). (r - m, s - n)) (zip xs ys). a\<^sup>2) = (\<Sum>r\<leftarrow>xs. (r - m)\<^sup>2)"
    and b: "(\<Sum>(a, b)\<leftarrow>map (\<lambda>(r, s). (r - m, s - n)) (zip xs ys). b\<^sup>2) = (\<Sum>s\<leftarrow>ys. (s - n)\<^sup>2)"
    and c: "(\<Sum>(a, b)\<leftarrow>map (\<lambda>(r, s). (r - m, s - n)) (zip xs ys). a * b)
              = (\<Sum>(r, s)\<leftarrow>zip xs ys. (r - m) * (s - n))"
    if "length xs = length ys" for xs ys :: "real list" and m n
    using that by (induction xs ys rule: list_induct2) auto
  from cauchy_schwarz_pairs[of ?ps] show ?thesis
    unfolding a[OF len] b[OF len] c[OF len] by (simp add: sum_co_dev_def sum_sq_dev_def)
qed

lemma correlation_in_range:
  fixes S A B :: real
  assumes cs: "S\<^sup>2 \<le> A * B" and d: "sqrt (A * B) \<noteq> 0"
  shows "- 1 \<le> S / sqrt (A * B)" and "S / sqrt (A * B) \<le> 1"
proof -
  have "0 \<le> S\<^sup>2" by simp
  with cs have nn: "0 \<le> A * B" by linarith
  then have "0 \<le> sqrt (A * B)" by simp
  with d have pos: "0 < sqrt (A * B)" by linarith
  have "sqrt (S\<^sup>2) \<le> sqrt (A * B)"
    using cs by (simp only: real_sqrt_le_iff)
  then have "\<bar>S\<bar> \<le> sqrt (A * B)" by simp
  then have "- sqrt (A * B) \<le> S" and "S \<le> sqrt (A * B)" by linarith+
  with pos show "- 1 \<le> S / sqrt (A * B)" and "S / sqrt (A * B) \<le> 1"
    by (simp_all add: field_simps)
qed

lemma entry_corr:
  "i < length (columns df) \<Longrightarrow> j < length (columns df) \<Longrightarrow>
   entry (corr df) i j = corr_pair (snd (columns df ! i)) (snd (columns df ! j))"
  by (simp add: entry_def corr_def case_prod_unfold)

text \<open>
  C7, as amended. For every return table whose cells are all finite and whose columns
  all have a variance that is not zero, the matrix of \<open>calculate_correlation_matrix\<close>
  is symmetric, has every diagonal entry equal to 1, and has every entry in [-1, 1]
  (in exact arithmetic).
\<close>

theorem correlation_matrix_properties:
  assumes wf: "well_formed (returns self)"
    and cells: "\<forall>(c, xs)\<in>set (columns (returns self)).
                  list_all isfinite xs \<and> sum_sq_dev (map the_real xs) \<noteq> 0"
    and i: "i < length (columns (returns self))" and j: "j < length (columns (returns self))"
  shows "entry (calculate_correlation_matrix self) i j = entry (calculate_correlation_matrix self) j i
         \<and> entry (calculate_correlation_matrix self) i i = Fin 1
         \<and> (\<exists>r. entry (calculate_correlation_matrix self) i j = Fin r \<and> - 1 \<le> r \<and> r \<le> 1)"
proof -
  let ?cols = "columns (returns self)"
  let ?xs = "snd (?cols ! i)" and ?ys = "snd (?cols ! j)"
  let ?rs = "map the_real ?xs" and ?ss = "map the_real ?ys"
  have mi: "?cols ! i \<in> set ?cols" and mj: "?cols ! j \<in> set ?cols"
    using i j by simp_all
  from mi cells have fx: "list_all isfinite ?xs" and vx: "sum_sq_dev ?rs \<noteq> 0"
    by (auto simp: case_prod_unfold)
  from mj cells have fy: "list_all isfinite ?ys" and vy: "sum_sq_dev ?ss \<noteq> 0"
    by (auto simp: case_prod_unfold)
  from mi mj wf have len: "length ?rs = length ?ss"
    by (auto simp: well_formed_def list_all_iff case_prod_unfold)
  have ne: "?rs \<noteq> []" using vx by (auto simp: sum_sq_dev_def)
  have xs: "?xs = map Fin ?rs" and ys: "?ys = map Fin ?ss"
    using finite_column[OF fx] finite_column[OF fy] .
  have sym: "entry (calculate_correlation_matrix self) i j
              = entry (calculate_correlation_matrix self) j i"
    using i j by (simp add: calculate_correlation_matrix_def entry_corr corr_pair_commute[of ?xs ?ys])
  have d: "sqrt (sum_sq_dev ?rs * sum_sq_dev ?ss) \<noteq> 0" using vx vy by simp
  have "corr_pair (map Fin ?rs) (map Fin ?ss)
          = Fin (sum_co_dev ?rs ?ss / sqrt (sum_sq_dev ?rs * sum_sq_dev ?ss))"
    using corr_pair_finite[OF len ne] d by simp
  then have "corr_pair ?xs ?ys = Fin (sum_co_dev ?rs ?ss / sqrt (sum_sq_dev ?rs * sum_sq_dev ?ss))"
    by (simp only: xs[symmetric] ys[symmetric])
  then have ij: "entry (calculate_correlation_matrix self) i j
              = Fin (sum_co_dev ?rs ?ss / sqrt (sum_sq_dev ?rs * sum_sq_dev ?ss))"
    using i j by (simp add: calculate_correlation_matrix_def entry_corr)
  have range: "- 1 \<le> sum_co_dev ?rs ?ss / sqrt (sum_sq_dev ?rs * sum_sq_dev ?ss)"
      "sum_co_dev ?rs ?ss / sqrt (sum_sq_dev ?rs * sum_sq_dev ?ss) \<le> 1"
    using correlation_in_range[OF sum_co_dev_bound[OF len] d] by blast+
  have "corr_pair (map Fin ?rs) (map Fin ?rs) = Fin 1"
    using corr_pair_finite[OF refl ne] vx
    by (simp add: sum_co_dev_same abs_of_nonneg[OF sum_sq_dev_nonneg])
  then have "corr_pair ?xs ?xs = Fin 1"
    by (simp only: xs[symmetric])
  then have diag: "entry (calculate_correlation_matrix self) i i = Fin 1"
    using i by (simp add: calculate_correlation_matrix_def entry_corr)
  from sym diag ij range show ?thesis by blast
qed

text \<open>C7, witness: two assets over three dates.\<close>

theorem correlation_matrix_properties_witness:
  "well_formed (returns (init_PerformanceAnalyzer \<lparr>index = [736695, 736696, 736697],
       columns = [(''Value'', [Fin 1, Fin 2, Fin 3]), (''Momentum'', [Fin 1, Fin 3, Fin 2])]\<rparr>))
   \<and> sum_sq_dev [1, 2, 3] \<noteq> 0 \<and> sum_sq_dev [1, 3, 2] \<noteq> 0
   \<and> entry (calculate_correlation_matrix (init_PerformanceAnalyzer
       \<lparr>index = [736695, 736696, 736697],
        columns = [(''Value'', [Fin 1, Fin 2, Fin 3]), (''Momentum'', [Fin 1, Fin 3, Fin 2])]\<rparr>)) 0 1
     = entry (calculate_correlation_matrix (init_PerformanceAnalyzer
       \<lparr>index = [736695, 736696, 736697],
        columns = [(''Value'', [Fin 1, Fin 2, Fin 3]), (''Momentum'', [Fin 1, Fin 3, Fin 2])]\<rparr>)) 1 0
   \<and> entry (calculate_correlation_matrix (init_PerformanceAnalyzer
       \<lparr>index = [736695, 736696, 736697],
        columns = [(''Value'', [Fin 1, Fin 2, Fin 3]), (''Momentum'', [Fin 1, Fin 3, Fin 2])]\<rparr>)) 0 0
     = Fin 1
   \<and> (\<exists>r. entry (calculate_correlation_matrix (init_PerformanceAnalyzer
       \<lparr>index = [736695, 736696, 736697],
        columns = [(''Value'', [Fin 1, Fin 2, Fin 3]), (''Momentum'', [Fin 1, Fin 3, Fin 2])]\<rparr>)) 0 1
       = Fin r \<and> - 1 \<le> r \<and> r \<le> 1)"
proof -
  let ?pa = "init_PerformanceAnalyzer \<lparr>index = [736695, 736696, 736697],
       columns = [(''Value'', [Fin 1, Fin 2, Fin 3]), (''Momentum'', [Fin 1, Fin 3, Fin 2])]\<rparr>"
  have wf: "well_formed (returns ?pa)"
    by (simp add: init_PerformanceAnalyzer_def well_formed_def)
  have v1: "sum_sq_dev [1, 2, 3] \<noteq> 0" and v2: "sum_sq_dev [1, 3, 2] \<noteq> 0"
    by (simp_all add: sum_sq_dev_def mean_def)
  have cells: "\<forall>(c, xs)\<in>set (columns (returns ?pa)).
                  list_all isfinite xs \<and> sum_sq_dev (map the_real xs) \<noteq> 0"
    using v1 v2 by (simp add: init_PerformanceAnalyzer_def)
  have i: "0 < length (columns (returns ?pa))" and j: "1 < length (columns (returns ?pa))"
    by (simp_all add: init_PerformanceAnalyzer_def)
  from correlation_matrix_properties[OF wf cells i j] wf v1 v2 show ?thesis
    by blast
qed

text \<open>
  C7 as stated fails: a return column that is constant (here two returns of zero, as a
  flat price gives) has the correlation \<open>nan\<close> with itself, not 1.
\<close>

theorem correlation_matrix_constant_column_counterexample:
  "return_table \<lparr>index = [736695, 736696], columns = [(''Value'', [Fin 0, Fin 0])]\<rparr>
   \<and> entry (calculate_correlation_matrix (init_PerformanceAnalyzer
       \<lparr>index = [736695, 736696], columns = [(''Value'', [Fin 0, Fin 0])]\<rparr>)) 0 0 = NaN
   \<and> NaN \<noteq> Fin 1"
  by (simp add: return_table_def well_formed_def calculate_correlation_matrix_def
      init_PerformanceAnalyzer_def entry_def corr_def corr_pair_def sum_sq_dev_def mean_def)

section \<open>Loading a batch of tickers\<close>



























lemma convert_usd_to_eur_can_raise:
  "convert_usd_to_eur
     \<lparr>start_date = 736695, end_date = 736697, currency_pair = ''EURUSD=X'',
      usd_eur_rate = Some [(736696, Fin 1), (736695, Fin 1), (736697, Fin 1)]\<rparr>
     [(736695, Fin 268)]
   = Inl (ValueError ''index must be monotonic increasing or decreasing'')"
  by (simp add: convert_usd_to_eur_def reindex_ffill_def)





section \<open>Synthetic prices\<close>

lemma cumsum_from_inject:
  "length xs = length ys \<Longrightarrow> cumsum_from a xs = cumsum_from a ys \<Longrightarrow> xs = ys"
proof (induction xs ys arbitrary: a rule: list_induct2)
  case Nil
  show ?case by simp
next
  case (Cons x xs y ys)
  from Cons.prems have xy: "x = y" by simp
  with Cons.prems have "cumsum_from (a + x) xs = cumsum_from (a + x) ys" by simp
  from Cons.IH[OF this] xy show ?case by simp
qed

lemma length_cumsum_from: "length (cumsum_from a xs) = length xs"
  by (induction xs arbitrary: a) auto

lemma price_path_inject:
  assumes "map (\<lambda>c. Fin (100 * exp c)) cs = map (\<lambda>c. Fin (100 * exp c)) ds"
  shows "cs = ds"
proof -
  have "inj (\<lambda>c::real. Fin (100 * exp c))" by (rule injI) simp
  with assms show ?thesis by (simp add: inj_map_eq_map)
qed

lemma mock_data_same_seed:
  assumes "np_normal env2 = np_normal env1"
    and "py_hash env1 name mod 2 ^ 32 = py_hash env2 name mod 2 ^ 32"
  shows "generate_mock_data env1 self name = generate_mock_data env2 self name"
  using assms by (simp add: generate_mock_data_def)

text \<open>
  C2. The synthetic price path is a function of the dates and of the seed
  \<open>hash(name) % 2**32\<close>. The interpreter's \<open>hash\<close> of a string is salted anew in
  each process, so the same name and dates give the same path only within one process:
  in two processes whose hashes of the name seed different draws, the two paths differ.
\<close>

theorem mock_data_depends_on_process_hash:
  assumes numpy: "np_normal env2 = np_normal env1"
    and len: "\<forall>seed n. length (np_normal env1 seed (2 / 10000) (1 / 100) n) = n"
    and draws: "np_normal env1 (nat (py_hash env1 name mod 2 ^ 32)) (2 / 10000) (1 / 100)
                   (length (bdate_range (start_date self) (end_date self)))
                \<noteq> np_normal env1 (nat (py_hash env2 name mod 2 ^ 32)) (2 / 10000) (1 / 100)
                   (length (bdate_range (start_date self) (end_date self)))"
  shows "generate_mock_data env1 self name \<noteq> generate_mock_data env2 self name"
proof
  let ?dr = "bdate_range (start_date self) (end_date self)"
  let ?n = "length ?dr"
  let ?r1 = "np_normal env1 (nat (py_hash env1 name mod 2 ^ 32)) (2 / 10000) (1 / 100) ?n"
  let ?r2 = "np_normal env1 (nat (py_hash env2 name mod 2 ^ 32)) (2 / 10000) (1 / 100) ?n"
  let ?f = "\<lambda>c. Fin (100 * exp c)"
  assume eq: "generate_mock_data env1 self name = generate_mock_data env2 self name"
  have l1: "length ?r1 = ?n" and l2: "length ?r2 = ?n" using len by blast+
  from eq have "zip ?dr (map ?f (cumsum ?r1)) = zip ?dr (map ?f (cumsum ?r2))"
    by (simp add: generate_mock_data_def Let_def numpy)
  then have "map snd (zip ?dr (map ?f (cumsum ?r1))) = map snd (zip ?dr (map ?f (cumsum ?r2)))"
    by simp
  moreover have "map snd (zip ?dr (map ?f (cumsum ?r1))) = map ?f (cumsum ?r1)"
    using l1 by (intro map_snd_zip) (simp add: cumsum_def length_cumsum_from)
  moreover have "map snd (zip ?dr (map ?f (cumsum ?r2))) = map ?f (cumsum ?r2)"
    using l2 by (intro map_snd_zip) (simp add: cumsum_def length_cumsum_from)
  ultimately have "map ?f (cumsum ?r1) = map ?f (cumsum ?r2)" by simp
  then have "cumsum ?r1 = cumsum ?r2" by (rule price_path_inject)
  then have cs: "cumsum_from 0 ?r1 = cumsum_from 0 ?r2" by (simp only: cumsum_def)
  have "length ?r1 = length ?r2" by (simp only: l1 l2)
  from cumsum_from_inject[OF this cs] have "?r1 = ?r2" .
  with draws show False by simp
qed

text \<open>
  C2, witness: two processes in which the name hashes to 1 and to 2, with a sampler
  whose draws are the seed.
\<close>

theorem mock_data_depends_on_process_hash_witness:
  "generate_mock_data
      \<lparr>yfinance_available = False, yf_download = (\<lambda>ticker start end. None),
       py_hash = (\<lambda>name. 1), np_normal = (\<lambda>seed loc scale n. replicate n (real seed))\<rparr>
      \<lparr>start_date = 736695, end_date = 736695, currency_pair = ''EURUSD=X'', usd_eur_rate = None\<rparr>
      ''Value''
   \<noteq> generate_mock_data
      \<lparr>yfinance_available = False, yf_download = (\<lambda>ticker start end. None),
       py_hash = (\<lambda>name. 2), np_normal = (\<lambda>seed loc scale n. replicate n (real seed))\<rparr>
      \<lparr>start_date = 736695, end_date = 736695, currency_pair = ''EURUSD=X'', usd_eur_rate = None\<rparr>
      ''Value''"
proof -
  have dates: "bdate_range 736695 736695 = [736695]"
    by (simp add: bdate_range_def upto.simps)
  show ?thesis
    by (rule mock_data_depends_on_process_hash) (simp_all add: dates)
qed

end
